theory Spec2Isabelle
  imports Main "HOL-Library.Char_ord" "HOL-Library.List_Lexorder"
begin

section \<open>The record store: JSON documents and the values Go decodes them to\<close>

text \<open>
  \<open>users.json\<close> is read with \<^verbatim>\<open>json.NewDecoder(input).Decode(&data)\<close> into
  \<^verbatim>\<open>var data []map[string]interface{}\<close> and written back with
  \<^verbatim>\<open>json.NewEncoder(output)\<close> after \<^verbatim>\<open>SetIndent("", "    ")\<close>.

  A \<open>json\<close> term is the document as its bytes spell it: the members of an object are
  a list, in the order of the text, and a name may occur twice. Whitespace, string
  escapes and the conversion of a number literal to a \<^verbatim>\<open>float64\<close> belong to the
  lexical layer of \<^verbatim>\<open>encoding/json\<close>, which is a parameter of the pipeline below; the
  type variable \<open>'n\<close> stands for \<^verbatim>\<open>float64\<close>.
\<close>

datatype 'n json =
    TNull
  | TBool bool
  | TNum 'n
  | TStr string
  | TArr "'n json list"
  | TObj "(string \<times> 'n json) list"

text \<open>
  A \<open>gval\<close> is what \<^verbatim>\<open>interface{}\<close> holds after decoding: \<^verbatim>\<open>nil\<close>, \<^verbatim>\<open>bool\<close>,
  \<^verbatim>\<open>float64\<close>, \<^verbatim>\<open>string\<close>, \<^verbatim>\<open>[]interface{}\<close> or \<^verbatim>\<open>map[string]interface{}\<close>.
  A Go map has no order of its own and one value for each key. It is represented by the
  association list of its entries with the keys strictly increasing in byte order, which
  is the order in which \<^verbatim>\<open>encoding/json\<close> writes the keys of a map.
\<close>

datatype 'n gval =
    GNil
  | GBool bool
  | GFloat 'n
  | GString string
  | GSlice "'n gval list"
  | GMap "(string \<times> 'n gval) list"

text \<open>\<^verbatim>\<open>m[k] = v\<close> on a map held as a key-sorted association list.\<close>

fun map_set :: "string \<Rightarrow> 'v \<Rightarrow> (string \<times> 'v) list \<Rightarrow> (string \<times> 'v) list" where
  "map_set k v [] = [(k, v)]"
| "map_set k v ((k', v') # m) =
     (if k < k' then (k, v) # (k', v') # m
      else if k = k' then (k, v) # m
      else (k', v') # map_set k v m)"

text \<open>
  Decoding into \<^verbatim>\<open>interface{}\<close>. An object's members are stored one after the other in
  the order of the text, so a later member replaces an earlier one of the same name.
\<close>

fun decode_value :: "'n json \<Rightarrow> 'n gval"
  and decode_array :: "'n json list \<Rightarrow> 'n gval list"
  and decode_object :: "(string \<times> 'n json) list \<Rightarrow> (string \<times> 'n gval) list \<Rightarrow> (string \<times> 'n gval) list"
where
  "decode_value TNull = GNil"
| "decode_value (TBool b) = GBool b"
| "decode_value (TNum n) = GFloat n"
| "decode_value (TStr s) = GString s"
| "decode_value (TArr xs) = GSlice (decode_array xs)"
| "decode_value (TObj fs) = GMap (decode_object fs [])"
| "decode_array [] = []"
| "decode_array (x # xs) = decode_value x # decode_array xs"
| "decode_object [] m = m"
| "decode_object ((k, x) # fs) m = decode_object fs (map_set k (decode_value x) m)"

text \<open>Encoding: the entries of a map are written in the order of their keys.\<close>

fun encode_value :: "'n gval \<Rightarrow> 'n json"
  and encode_slice :: "'n gval list \<Rightarrow> 'n json list"
  and encode_map :: "(string \<times> 'n gval) list \<Rightarrow> (string \<times> 'n json) list"
where
  "encode_value GNil = TNull"
| "encode_value (GBool b) = TBool b"
| "encode_value (GFloat n) = TNum n"
| "encode_value (GString s) = TStr s"
| "encode_value (GSlice xs) = TArr (encode_slice xs)"
| "encode_value (GMap m) = TObj (encode_map m)"
| "encode_slice [] = []"
| "encode_slice (x # xs) = encode_value x # encode_slice xs"
| "encode_map [] = []"
| "encode_map ((k, x) # m) = (k, encode_value x) # encode_map m"

datatype decode_error = SyntaxError | UnmarshalTypeError

text \<open>
  Decoding into \<^verbatim>\<open>[]map[string]interface{}\<close>: the document is an array whose elements
  are objects. \<^verbatim>\<open>null\<close> is accepted in both places and leaves a nil slice or a nil
  map; anything else is an \<^verbatim>\<open>UnmarshalTypeError\<close>.
\<close>

fun is_record :: "'n json \<Rightarrow> bool" where
  "is_record TNull = True"
| "is_record (TObj fs) = True"
| "is_record _ = False"

fun decode_users :: "'n json \<Rightarrow> decode_error + 'n gval" where
  "decode_users TNull = Inr GNil"
| "decode_users (TArr xs) =
     (if list_all is_record xs then Inr (GSlice (decode_array xs)) else Inl UnmarshalTypeError)"
| "decode_users _ = Inl UnmarshalTypeError"

text \<open>\<^verbatim>\<open>range data\<close>: a nil slice has no elements.\<close>

fun users_of :: "'n gval \<Rightarrow> 'n gval list" where
  "users_of (GSlice us) = us"
| "users_of _ = []"

text \<open>\<^verbatim>\<open>user[k]\<close>: indexing a nil map gives nil, like a missing key.\<close>

fun field :: "'n gval \<Rightarrow> string \<Rightarrow> 'n gval option" where
  "field (GMap m) k = map_of m k"
| "field _ k = None"


section \<open>The paginated API client\<close>

text \<open>
  Modelled from the spec: the declaration of \<^verbatim>\<open>SlackUser\<close> is not among the
  sources. \<^verbatim>\<open>fetchUserEmails\<close> reads \<^verbatim>\<open>user.Id\<close> and \<^verbatim>\<open>user.Profile.Email\<close>, the
  member identifier and the email of the nested profile object.
\<close>

record slack_profile =
  Email :: string

record slack_user =
  user_Id :: string
  Profile :: slack_profile

text \<open>The anonymous struct a page's body is decoded into.\<close>

record page =
  Ok :: bool
  Members :: "slack_user list"
  NextCursor :: string

text \<open>
  What \<^verbatim>\<open>json.NewDecoder(resp.Body).Decode(&data)\<close> makes of a body: the struct as
  it fills it in, and whether it returns an error. After a syntax error the struct is as
  it was declared; after a value of the wrong type for a field the other fields are
  filled in all the same.
\<close>

datatype body = Decoded page | Undecoded page

text \<open>
  What \<^verbatim>\<open>client.Do(req)\<close> gives: a transport error, or a response with its status
  code, the value of \<^verbatim>\<open>resp.Header.Get("Retry-After")\<close> (empty when the header is
  absent) and its body. The server is a script: the list of the outcomes of the requests
  to come, one for each request. A request is recorded among the events when its outcome
  is taken from the script.
\<close>

datatype outcome = NetError | Response int string body

datatype event =
    Request int string \<comment> \<open>GET users.list with this \<open>limit\<close> and \<open>cursor\<close> (empty: none sent)\<close>
  | Sleep int \<comment> \<open>\<^verbatim>\<open>time.Sleep\<close> with this \<^verbatim>\<open>time.Duration\<close>, in nanoseconds\<close>

datatype fetch_error =
    HttpCode int \<comment> \<open>"Slack API returned HTTP code %d"\<close>
  | BodyError \<comment> \<open>the error of the body's decoder\<close>
  | LackOfOk \<comment> \<open>"Unexpected lack of ok=true in Slack API response."\<close>

text \<open>
  \<^verbatim>\<open>strconv.Atoi\<close> where \<^verbatim>\<open>int\<close> has 64 bits: an optional sign, then one or more
  decimal digits and nothing else; a value outside the range of \<^verbatim>\<open>int\<close> is an error.
\<close>

definition is_digit :: "char \<Rightarrow> bool" where
  "is_digit c = (CHR ''0'' \<le> c \<and> c \<le> CHR ''9'')"

fun digits_value :: "nat \<Rightarrow> string \<Rightarrow> nat" where
  "digits_value n [] = n"
| "digits_value n (c # cs) = digits_value (n * 10 + (of_char c - 48)) cs"

fun split_sign :: "string \<Rightarrow> bool \<times> string" where
  "split_sign [] = (False, [])"
| "split_sign (c # cs) =
     (if c = CHR ''-'' then (True, cs)
      else if c = CHR ''+'' then (False, cs)
      else (False, c # cs))"

definition Atoi :: "string \<Rightarrow> int option" where
  "Atoi s =
     (case split_sign s of
        (neg, ds) \<Rightarrow>
          if ds = [] \<or> \<not> list_all is_digit ds then None
          else let v = (if neg then - int (digits_value 0 ds) else int (digits_value 0 ds))
               in if v < - (2 ^ 63) \<or> 2 ^ 63 - 1 < v then None else Some v)"

text \<open>
  \<^verbatim>\<open>time.Duration\<close> is an \<^verbatim>\<open>int64\<close> count of nanoseconds; its product wraps
  around. The counter \<^verbatim>\<open>attempt\<close> grows by one with each attempt made and is a
  natural number here; \<^verbatim>\<open>page\<close> and \<^verbatim>\<open>total\<close> are only logged and are left
  out, as all logging is.
\<close>

definition wrap64 :: "int \<Rightarrow> int" where
  "wrap64 x = (x + 2 ^ 63) mod 2 ^ 64 - 2 ^ 63"

definition Second :: int where
  "Second = 1000000000"

text \<open>\<^verbatim>\<open>time.Duration(1<<min(attempt, 3)) * time.Second\<close>\<close>

definition backoff :: "nat \<Rightarrow> int" where
  "backoff attempt = wrap64 (2 ^ min attempt 3 * Second)"

text \<open>\<^verbatim>\<open>waitSec\<close> after a 429, and \<^verbatim>\<open>time.Duration(waitSec) * time.Second\<close>.\<close>

definition waitSec :: "string \<Rightarrow> int" where
  "waitSec ra = (if ra \<noteq> [] then (case Atoi ra of Some v \<Rightarrow> v | None \<Rightarrow> 1) else 1)"

definition rateLimitWait :: "string \<Rightarrow> int" where
  "rateLimitWait ra = wrap64 (waitSec ra * Second)"

text \<open>
  The retry loop of one page (\<^verbatim>\<open>for attempt := 0; ; attempt++\<close>). It returns the
  status and body of the first response that is neither 429 nor 500 and above, with the
  rest of the script, or \<open>None\<close> when the script ends before such a response: the
  loop has no other exit. \<^verbatim>\<open>http.NewRequest\<close> cannot fail here, since the endpoint is
  a constant followed by \<^verbatim>\<open>url.Values.Encode()\<close>.
\<close>

fun attemptLoop ::
  "int \<Rightarrow> string \<Rightarrow> nat \<Rightarrow> outcome list \<Rightarrow> event list
     \<Rightarrow> ((int \<times> body) \<times> outcome list) option \<times> event list"
where
  "attemptLoop limit cursor attempt [] tr = (None, tr)"
| "attemptLoop limit cursor attempt (NetError # script) tr =
     attemptLoop limit cursor (Suc attempt) script
       (tr @ [Request limit cursor, Sleep (backoff attempt)])"
| "attemptLoop limit cursor attempt (Response status ra body # script) tr =
     (if status = 429 then
        attemptLoop limit cursor (Suc attempt) script
          (tr @ [Request limit cursor, Sleep (rateLimitWait ra)])
      else if status \<ge> 500 then
        attemptLoop limit cursor (Suc attempt) script
          (tr @ [Request limit cursor, Sleep (backoff attempt)])
      else (Some ((status, body), script), tr @ [Request limit cursor]))"

text \<open>\<^verbatim>\<open>for _, user := range data.Members\<close>\<close>

fun addMembers :: "slack_user list \<Rightarrow> (string \<rightharpoonup> string) \<Rightarrow> (string \<rightharpoonup> string)" where
  "addMembers [] res = res"
| "addMembers (user # users) res =
     addMembers users
       (if user_Id user \<noteq> [] \<and> Email (Profile user) \<noteq> []
        then res(user_Id user \<mapsto> Email (Profile user)) else res)"

text \<open>The loop over the pages.\<close>

function pageLoop ::
  "int \<Rightarrow> bool \<Rightarrow> string \<Rightarrow> (string \<rightharpoonup> string) \<Rightarrow> outcome list \<Rightarrow> event list
     \<Rightarrow> (fetch_error + (string \<rightharpoonup> string)) option \<times> outcome list \<times> event list"
where
  "pageLoop limit pace cursor res script tr =
     (case attemptLoop limit cursor 0 script tr of
        (None, tr') \<Rightarrow> (None, [], tr')
      | (Some ((status, body), rest), tr') \<Rightarrow>
          if status \<noteq> 200 then (Some (Inl (HttpCode status)), rest, tr')
          else (case body of
                  Undecoded data \<Rightarrow> (Some (Inl BodyError), rest, tr')
                | Decoded data \<Rightarrow>
                    if \<not> Ok data then (Some (Inl LackOfOk), rest, tr')
                    else if NextCursor data = [] then
                      (Some (Inr (addMembers (Members data) res)), rest, tr')
                    else pageLoop limit pace (NextCursor data)
                           (addMembers (Members data) res) rest
                           (if pace then tr' @ [Sleep (wrap64 (1 * Second))] else tr')))"
  by pat_completeness auto
termination
proof -
  have shorter: "fst (attemptLoop limit cursor n s t) = Some (r, s') \<Longrightarrow> length s' < length s"
    for limit cursor n s t r s'
  proof (induction limit cursor n s t rule: attemptLoop.induct)
    case (3 limit cursor attempt status ra body script tr)
    then show ?case by (auto split: if_splits)
  qed auto
  have step: "(Some (r, s'), t') = attemptLoop limit cursor n s t \<Longrightarrow> length s' < length s"
    for limit cursor n s t r s' t'
    using shorter [of limit cursor n s t r s'] by (metis fst_conv)
  show ?thesis
    by (relation "measure (\<lambda>(limit, pace, cursor, res, script, tr). length script)")
      (auto dest: step)
qed

declare pageLoop.simps [simp del]

text \<open>The bounds on the page size, on the global \<^verbatim>\<open>usersPageLimit\<close>.\<close>

definition clampPageLimit :: "int \<Rightarrow> int" where
  "clampPageLimit usersPageLimit =
     (let l = (if usersPageLimit \<le> 0 then 200 else usersPageLimit)
      in if l > 999 then 999 else l)"

text \<open>
  \<^verbatim>\<open>fetchUserEmails\<close>, from the globals \<^verbatim>\<open>usersPageLimit\<close> and \<^verbatim>\<open>usersPace1RPS\<close>,
  the script of the server and the events so far. The bounded page size is written back
  to the global; bounding it again does not change it, so a later call may start from the
  value of the flag as well.
\<close>

definition fetchUserEmails ::
  "int \<Rightarrow> bool \<Rightarrow> outcome list \<Rightarrow> event list
     \<Rightarrow> (fetch_error + (string \<rightharpoonup> string)) option \<times> outcome list \<times> event list"
where
  "fetchUserEmails usersPageLimit usersPace1RPS script tr =
     pageLoop (clampPageLimit usersPageLimit) usersPace1RPS [] Map.empty script tr"


section \<open>The archive and its environment\<close>

text \<open>
  An entry of a zip archive: its \<^verbatim>\<open>FileHeader\<close>, which holds the name and the rest of
  the metadata (mode, times, method, comment, extra), and its bytes. \<^verbatim>\<open>CreateHeader\<close>
  is given a copy of the header of the input entry; what the writer then puts on disk
  (flags, sizes, checksums) is the container's own encoding and is not modelled.
\<close>

type_synonym bytes = string

record 'm file_header =
  Name :: string
  Meta :: 'm

record 'm zip_file =
  FileHeader :: "'m file_header"
  Content :: bytes

text \<open>
  What the code asks of the file system, the zip and JSON libraries and the network, and
  where each may fail. \<open>parse\<close> and \<open>render\<close> are the lexical layer of
  \<^verbatim>\<open>encoding/json\<close>: bytes to document (\<open>None\<close>: the decoder's reader or syntax
  check fails) and document to bytes, indented by four spaces. \<open>do_get\<close> is
  \<^verbatim>\<open>httpClient.Do\<close> (a client declared outside the sources) on a picture's URL: \<open>None\<close> is a transport error, otherwise
  the bytes that \<^verbatim>\<open>io.Copy\<close> takes from the body, whatever the status of the
  response, which the code does not look at; an error of that copy is only logged.
\<close>

record ('m, 'n) env =
  input_ok :: bool \<comment> \<open>\<^verbatim>\<open>zip.OpenReader(inputArchive)\<close>\<close>
  output_ok :: bool \<comment> \<open>\<^verbatim>\<open>os.Create(outputArchive)\<close>\<close>
  open_ok :: "'m zip_file \<Rightarrow> bool" \<comment> \<open>\<^verbatim>\<open>file.Open()\<close>\<close>
  create_ok :: "'m file_header \<Rightarrow> bool" \<comment> \<open>\<^verbatim>\<open>w.CreateHeader\<close>, \<^verbatim>\<open>w.Create\<close>\<close>
  copy_ok :: "'m zip_file \<Rightarrow> bool" \<comment> \<open>\<^verbatim>\<open>io.Copy(outFile, inReader)\<close>\<close>
  write_ok :: "'m file_header \<Rightarrow> bool" \<comment> \<open>the write of \<^verbatim>\<open>enc.Encode(&data)\<close>\<close>
  parse :: "bytes \<Rightarrow> 'n json option"
  render :: "'n json \<Rightarrow> bytes"
  request_ok :: "string \<Rightarrow> bool" \<comment> \<open>\<^verbatim>\<open>http.NewRequest("GET", imageURL, nil)\<close>\<close>
  do_get :: "string \<Rightarrow> bytes option"
  created_meta :: 'm \<comment> \<open>the metadata \<^verbatim>\<open>w.Create\<close> gives a new entry\<close>

datatype error =
    Decode decode_error
  | Fetch fetch_error
  | NoUsers \<comment> \<open>"Failed to find any users in users.json."\<close>
  | EncodeWrite
  | BuildRequest \<comment> \<open>"Got error %s when building the request"\<close>
  | CreatePicture \<comment> \<open>"Failed to write profile picture to zip file"\<close>
  | CreateUsersJson \<comment> \<open>"Failed to write users.json back to archive"\<close>

text \<open>The calls of \<^verbatim>\<open>os.Exit(1)\<close>.\<close>

datatype exit =
    OpenInputFailed
  | CreateOutputFailed
  | OpenFailed
  | CreateFailed
  | CopyFailed
  | UsersJsonFailed error

text \<open>
  \<^verbatim>\<open>profile[k] = v\<close> changes the map that \<^verbatim>\<open>user["profile"]\<close> refers to. A decoded
  document shares no map between two places, so the change is the same as storing the
  changed map back under its key.
\<close>

fun store_field :: "'n gval \<Rightarrow> string \<Rightarrow> 'n gval \<Rightarrow> 'n gval" where
  "store_field (GMap m) k v = GMap (map_set k v m)"
| "store_field u k v = u"

fun with_users :: "'n gval \<Rightarrow> 'n gval list \<Rightarrow> 'n gval" where
  "with_users (GSlice us) us' = GSlice us'"
| "with_users d us' = d"

section \<open>fetch-emails\<close>

text \<open>\<^verbatim>\<open>emails[userid]\<close>: the empty string for a key that is not in the map.\<close>

definition lookupEmail :: "(string \<rightharpoonup> string) \<Rightarrow> string \<Rightarrow> string" where
  "lookupEmail emails userid = (case emails userid of Some email \<Rightarrow> email | None \<Rightarrow> [])"

text \<open>The body of the loop over the users in \<^verbatim>\<open>processUsersJson\<close>.\<close>

definition setUserEmail :: "(string \<rightharpoonup> string) \<Rightarrow> 'n gval \<Rightarrow> 'n gval" where
  "setUserEmail emails user =
     (case field user ''id'' of
        Some (GString userid) \<Rightarrow>
          (case field user ''profile'' of
             Some (GMap profile) \<Rightarrow>
               store_field user ''profile''
                 (GMap (map_set ''email'' (GString (lookupEmail emails userid)) profile))
           | _ \<Rightarrow> user)
      | _ \<Rightarrow> user)"

text \<open>
  \<^verbatim>\<open>processUsersJson(outFile, inReader, emailsApiToken)\<close> on an entry of the input; the
  result is what is written to the output entry. The token is sent with each request
  and decides nothing here: what the server makes of it is in the script.
\<close>

definition processUsersJson ::
  "('m, 'n) env \<Rightarrow> int \<Rightarrow> bool \<Rightarrow> 'm zip_file \<Rightarrow> outcome list \<Rightarrow> event list
     \<Rightarrow> (error + bytes) option \<times> outcome list \<times> event list"
where
  "processUsersJson env usersPageLimit usersPace1RPS file script tr =
     (case parse env (Content file) of
        None \<Rightarrow> (Some (Inl (Decode SyntaxError)), script, tr)
      | Some doc \<Rightarrow>
          (case decode_users doc of
             Inl e \<Rightarrow> (Some (Inl (Decode e)), script, tr)
           | Inr data \<Rightarrow>
               (case fetchUserEmails usersPageLimit usersPace1RPS script tr of
                  (None, rest, tr') \<Rightarrow> (None, rest, tr')
                | (Some (Inl e), rest, tr') \<Rightarrow> (Some (Inl (Fetch e)), rest, tr')
                | (Some (Inr emails), rest, tr') \<Rightarrow>
                    if length (users_of data) = 0 then (Some (Inl NoUsers), rest, tr')
                    else if \<not> write_ok env (FileHeader file) then
                      (Some (Inl EncodeWrite), rest, tr')
                    else
                      (Some (Inr (render env (encode_value
                          (with_users data (map (setUserEmail emails) (users_of data)))))),
                       rest, tr'))))"

text \<open>
  The loop over \<^verbatim>\<open>r.File\<close> in \<^verbatim>\<open>fetchEmails\<close>, with the entries written so far. An
  error of the final \<^verbatim>\<open>w.Close()\<close> is printed and the command still returns nil.
\<close>

fun emailsFiles ::
  "('m, 'n) env \<Rightarrow> int \<Rightarrow> bool \<Rightarrow> 'm zip_file list \<Rightarrow> 'm zip_file list \<Rightarrow> outcome list
     \<Rightarrow> event list \<Rightarrow> (exit + 'm zip_file list) option \<times> outcome list \<times> event list"
where
  "emailsFiles env limit pace [] w script tr = (Some (Inr w), script, tr)"
| "emailsFiles env limit pace (file # files) w script tr =
     (if \<not> open_ok env file then (Some (Inl OpenFailed), script, tr)
      else if \<not> create_ok env (FileHeader file) then (Some (Inl CreateFailed), script, tr)
      else if Name (FileHeader file) = ''users.json'' then
        (case processUsersJson env limit pace file script tr of
           (None, rest, tr') \<Rightarrow> (None, rest, tr')
         | (Some (Inl e), rest, tr') \<Rightarrow> (Some (Inl (UsersJsonFailed e)), rest, tr')
         | (Some (Inr out), rest, tr') \<Rightarrow>
             emailsFiles env limit pace files
               (w @ [\<lparr>FileHeader = FileHeader file, Content = out\<rparr>]) rest tr')
      else if \<not> copy_ok env file then (Some (Inl CopyFailed), script, tr)
      else emailsFiles env limit pace files
             (w @ [\<lparr>FileHeader = FileHeader file, Content = Content file\<rparr>]) script tr)"

definition fetchEmails ::
  "('m, 'n) env \<Rightarrow> int \<Rightarrow> bool \<Rightarrow> 'm zip_file list \<Rightarrow> outcome list
     \<Rightarrow> (exit + 'm zip_file list) option \<times> outcome list \<times> event list"
where
  "fetchEmails env usersPageLimit usersPace1RPS r script =
     (if \<not> input_ok env then (Some (Inl OpenInputFailed), script, [])
      else if \<not> output_ok env then (Some (Inl CreateOutputFailed), script, [])
      else emailsFiles env usersPageLimit usersPace1RPS r [] script [])"

section \<open>fetch-profile-pictures\<close>

definition HasPrefix :: "string \<Rightarrow> string \<Rightarrow> bool" where
  "HasPrefix s p = (length s \<ge> length p \<and> take (length p) s = p)"

definition HasSuffix :: "string \<Rightarrow> string \<Rightarrow> bool" where
  "HasSuffix s x = (length s \<ge> length x \<and> drop (length s - length x) s = x)"

text \<open>\<^verbatim>\<open>strings.Split(s, sep)\<close> for a separator of one byte; the result is never empty.\<close>

fun Split :: "string \<Rightarrow> char \<Rightarrow> string list" where
  "Split [] sep = [] # []"
| "Split (c # s) sep =
     (if c = sep then [] # Split s sep
      else (case Split s sep of
              [] \<Rightarrow> [c] # []
            | part # parts \<Rightarrow> (c # part) # parts))"

text \<open>\<^verbatim>\<open>"." + parts[len(parts)-1]\<close>\<close>

definition extension :: "string \<Rightarrow> string" where
  "extension imageURL = ''.'' @ last (Split imageURL CHR ''.'')"

text \<open>
  The body of the loop over the users in \<^verbatim>\<open>downloadPictures\<close>, on the entries
  written so far and the list of the URLs requested so far.
\<close>

definition downloadPicture ::
  "('m, 'n) env \<Rightarrow> 'n gval \<Rightarrow> 'm zip_file list \<Rightarrow> string list
     \<Rightarrow> error + 'n gval \<times> 'm zip_file list \<times> string list"
where
  "downloadPicture env user w gets =
     (case field user ''id'' of
        Some (GString userid) \<Rightarrow>
          (case field user ''profile'' of
             Some (GMap profile) \<Rightarrow>
               (case map_of profile ''image_original'' of
                  Some (GString imageURL) \<Rightarrow>
                    if HasPrefix imageURL ''https://avatars.slack-edge.com/'' \<and>
                       (HasSuffix imageURL ''.jpg'' \<or> HasSuffix imageURL ''.png'')
                    then
                      if \<not> request_ok env imageURL then Inl BuildRequest
                      else
                        (case do_get env imageURL of
                           None \<Rightarrow> Inr (user, w, gets @ [imageURL])
                         | Some body \<Rightarrow>
                             let picFileName = ''profile_pictures/'' @ userid @ extension imageURL;
                                 header = \<lparr>Name = picFileName, Meta = created_meta env\<rparr>
                             in if \<not> create_ok env header then Inl CreatePicture
                                else Inr (store_field user ''profile''
                                            (GMap (map_set ''image_path'' (GString picFileName) profile)),
                                          w @ [\<lparr>FileHeader = header, Content = body\<rparr>],
                                          gets @ [imageURL]))
                    else Inr (user, w, gets)
                | _ \<Rightarrow> Inr (user, w, gets))
           | _ \<Rightarrow> Inr (user, w, gets))
      | _ \<Rightarrow> Inr (user, w, gets))"

fun pictureLoop ::
  "('m, 'n) env \<Rightarrow> 'n gval list \<Rightarrow> 'm zip_file list \<Rightarrow> string list
     \<Rightarrow> error + 'n gval list \<times> 'm zip_file list \<times> string list"
where
  "pictureLoop env [] w gets = Inr ([], w, gets)"
| "pictureLoop env (user # users) w gets =
     (case downloadPicture env user w gets of
        Inl e \<Rightarrow> Inl e
      | Inr (user', w', gets') \<Rightarrow>
          (case pictureLoop env users w' gets' of
             Inl e \<Rightarrow> Inl e
           | Inr (users', w'', gets'') \<Rightarrow> Inr (user' # users', w'', gets'')))"

definition downloadPictures ::
  "('m, 'n) env \<Rightarrow> 'm zip_file \<Rightarrow> 'm zip_file list \<Rightarrow> string list
     \<Rightarrow> error + 'm zip_file list \<times> string list"
where
  "downloadPictures env file w gets =
     (case parse env (Content file) of
        None \<Rightarrow> Inl (Decode SyntaxError)
      | Some doc \<Rightarrow>
          (case decode_users doc of
             Inl e \<Rightarrow> Inl (Decode e)
           | Inr data \<Rightarrow>
               (case pictureLoop env (users_of data) w gets of
                  Inl e \<Rightarrow> Inl e
                | Inr (users', w', gets') \<Rightarrow>
                    let header = \<lparr>Name = ''users.json'', Meta = created_meta env\<rparr>
                    in if \<not> create_ok env header then Inl CreateUsersJson
                       else if \<not> write_ok env header then Inl EncodeWrite
                       else Inr (w' @ [\<lparr>FileHeader = header,
                                       Content = render env (encode_value (with_users data users'))\<rparr>],
                                 gets'))))"

fun picturesFiles ::
  "('m, 'n) env \<Rightarrow> 'm zip_file list \<Rightarrow> 'm zip_file list \<Rightarrow> string list
     \<Rightarrow> exit + 'm zip_file list \<times> string list"
where
  "picturesFiles env [] w gets = Inr (w, gets)"
| "picturesFiles env (file # files) w gets =
     (if \<not> open_ok env file then Inl OpenFailed
      else if Name (FileHeader file) = ''users.json'' then
        (case downloadPictures env file w gets of
           Inl e \<Rightarrow> Inl (UsersJsonFailed e)
         | Inr (w', gets') \<Rightarrow> picturesFiles env files w' gets')
      else if \<not> create_ok env (FileHeader file) then Inl CreateFailed
      else if \<not> copy_ok env file then Inl CopyFailed
      else picturesFiles env files
             (w @ [\<lparr>FileHeader = FileHeader file, Content = Content file\<rparr>]) gets)"

definition fetchProfilePics ::
  "('m, 'n) env \<Rightarrow> 'm zip_file list \<Rightarrow> exit + 'm zip_file list \<times> string list"
where
  "fetchProfilePics env r =
     (if \<not> input_ok env then Inl OpenInputFailed
      else if \<not> output_ok env then Inl CreateOutputFailed
      else picturesFiles env r [] [])"


section \<open>Notions used to state the properties\<close>

subsection \<open>The client\<close>

text \<open>The requests among the events: page size and cursor of each, in order.\<close>

fun requests :: "event list \<Rightarrow> (int \<times> string) list" where
  "requests [] = []"
| "requests (Request limit cursor # tr) = (limit, cursor) # requests tr"
| "requests (Sleep d # tr) = requests tr"

text \<open>
  The retry classes of the specification: a transport failure, a rate-limited response
  and a server error. The delay before the next attempt, as the specification states it:
  two to the power of the lesser of the attempt's number and 3, in seconds, or after a
  429 the integer of the Retry-After header, and 1 when there is none or it is not an
  integer. Durations are in nanoseconds.
\<close>

fun retryable :: "outcome \<Rightarrow> bool" where
  "retryable NetError = True"
| "retryable (Response status ra body) = (status = 429 \<or> status \<ge> 500)"

definition retry_after_seconds :: "string \<Rightarrow> int" where
  "retry_after_seconds ra = (case Atoi ra of Some v \<Rightarrow> v | None \<Rightarrow> 1)"

fun retry_delay :: "nat \<Rightarrow> outcome \<Rightarrow> int" where
  "retry_delay attempt NetError = 2 ^ min attempt 3 * 1000000000"
| "retry_delay attempt (Response status ra body) =
     (if status = 429 then retry_after_seconds ra * 1000000000
      else 2 ^ min attempt 3 * 1000000000)"

text \<open>
  The events of a run of retried attempts, numbered from \<open>attempt\<close>: each is a
  request followed by the wait.
\<close>

fun retry_trace :: "int \<Rightarrow> string \<Rightarrow> nat \<Rightarrow> outcome list \<Rightarrow> event list" where
  "retry_trace limit cursor attempt [] = []"
| "retry_trace limit cursor attempt (r # rs) =
     Request limit cursor # Sleep (retry_delay attempt r) # retry_trace limit cursor (Suc attempt) rs"

text \<open>
  A 429 whose wait, in nanoseconds, is within \<^verbatim>\<open>int64\<close>: at most 9223372036 seconds
  either way.
\<close>

fun representable :: "outcome \<Rightarrow> bool" where
  "representable NetError = True"
| "representable (Response status ra body) =
     (status \<noteq> 429 \<or>
      (- 9223372036 \<le> retry_after_seconds ra \<and> retry_after_seconds ra \<le> 9223372036))"

text \<open>A page served without error, and the events of a run of such pages.\<close>

definition success_response :: "page \<Rightarrow> outcome" where
  "success_response data = Response 200 [] (Decoded data)"

fun pages_trace :: "int \<Rightarrow> bool \<Rightarrow> string \<Rightarrow> page list \<Rightarrow> event list" where
  "pages_trace limit pace cursor [] = []"
| "pages_trace limit pace cursor (data # pages) =
     Request limit cursor # (if pace then [Sleep 1000000000] else []) @
     pages_trace limit pace (NextCursor data) pages"

fun last_cursor :: "string \<Rightarrow> page list \<Rightarrow> string" where
  "last_cursor cursor [] = cursor"
| "last_cursor cursor (data # pages) = last_cursor (NextCursor data) pages"

text \<open>
  The two terminal conditions of the specification, (a) a status that is neither success
  nor in a retry class and (b) a body without \<open>ok=true\<close>, and the conditions
  under which the code gives up, which add a body that does not decode.
\<close>

fun body_data :: "body \<Rightarrow> page" where
  "body_data (Decoded data) = data"
| "body_data (Undecoded data) = data"

fun decode_failed :: "body \<Rightarrow> bool" where
  "decode_failed (Decoded data) = False"
| "decode_failed (Undecoded data) = True"

definition terminal_status :: "int \<Rightarrow> bool" where
  "terminal_status status = (status \<noteq> 200 \<and> status \<noteq> 429 \<and> status < 500)"

definition lacks_ok :: "body \<Rightarrow> bool" where
  "lacks_ok body = (\<not> Ok (body_data body))"

definition fatal :: "int \<Rightarrow> body \<Rightarrow> bool" where
  "fatal status body =
     (terminal_status status \<or> status = 200 \<and> (lacks_ok body \<or> decode_failed body))"

subsection \<open>The record store\<close>

text \<open>
  The values that represent Go data: in every map the keys are strictly increasing.
  Decoding produces only such values.
\<close>

fun canonical :: "'n gval \<Rightarrow> bool"
  and canonical_slice :: "'n gval list \<Rightarrow> bool"
  and canonical_map :: "(string \<times> 'n gval) list \<Rightarrow> bool"
where
  "canonical (GSlice xs) = canonical_slice xs"
| "canonical (GMap m) = (sorted_wrt (<) (map fst m) \<and> canonical_map m)"
| "canonical GNil = True"
| "canonical (GBool b) = True"
| "canonical (GFloat n) = True"
| "canonical (GString s) = True"
| "canonical_slice [] = True"
| "canonical_slice (x # xs) = (canonical x \<and> canonical_slice xs)"
| "canonical_map [] = True"
| "canonical_map ((k, x) # m) = (canonical x \<and> canonical_map m)"

text \<open>
  Decoding \<open>users.json\<close> and encoding the result with no change in between, as
  both commands do when no record is changed.
\<close>

definition reencode :: "'n json \<Rightarrow> decode_error + 'n json" where
  "reencode doc = (case decode_users doc of Inl e \<Rightarrow> Inl e | Inr data \<Rightarrow> Inr (encode_value data))"

text \<open>A document in which every object lists its names in strictly increasing order.\<close>

fun ordered :: "'n json \<Rightarrow> bool"
  and ordered_array :: "'n json list \<Rightarrow> bool"
  and ordered_object :: "(string \<times> 'n json) list \<Rightarrow> bool"
where
  "ordered (TArr xs) = ordered_array xs"
| "ordered (TObj fs) = (sorted_wrt (<) (map fst fs) \<and> ordered_object fs)"
| "ordered TNull = True"
| "ordered (TBool b) = True"
| "ordered (TNum n) = True"
| "ordered (TStr s) = True"
| "ordered_array [] = True"
| "ordered_array (x # xs) = (ordered x \<and> ordered_array xs)"
| "ordered_object [] = True"
| "ordered_object ((k, x) # fs) = (ordered x \<and> ordered_object fs)"

subsection \<open>The archive\<close>

text \<open>An entry other than the target entry.\<close>

definition other_entry :: "'m zip_file \<Rightarrow> bool" where
  "other_entry file = (Name (FileHeader file) \<noteq> ''users.json'')"

text \<open>
  An environment in which nothing fails, for the examples. Two byte strings parse, to the
  empty array and to a single record; every document is written as the same three
  bytes and every picture is the same four bytes.
\<close>

definition example_env :: "(unit, nat) env" where
  "example_env =
     \<lparr>input_ok = True, output_ok = True,
      open_ok = (\<lambda>f. True), create_ok = (\<lambda>h. True), copy_ok = (\<lambda>f. True),
      write_ok = (\<lambda>h. True),
      parse = map_of
        [(''[]'', TArr []),
         (''[U1]'', TArr [TObj [(''name'', TStr ''bob''), (''id'', TStr ''U1''),
                               (''profile'', TObj [])]])],
      render = (\<lambda>d. ''...''),
      request_ok = (\<lambda>u. True), do_get = (\<lambda>u. Some ''JFIF''), created_meta = ()\<rparr>"

subsection \<open>The pictures\<close>







subsection \<open>Environments for the examples\<close>

text \<open>
  A way of writing a document as bytes that shows every name and value, and an
  environment in which nothing fails, which writes documents that way and parses the
  bytes of the documents of the examples.
\<close>

fun spell :: "nat json \<Rightarrow> string"
  and spell_array :: "nat json list \<Rightarrow> string"
  and spell_object :: "(string \<times> nat json) list \<Rightarrow> string"
where
  "spell TNull = ''null''"
| "spell (TBool b) = (if b then ''true'' else ''false'')"
| "spell (TNum n) = replicate n CHR ''|''"
| "spell (TStr s) = s"
| "spell (TArr xs) = ''['' @ spell_array xs @ '']''"
| "spell (TObj fs) = ''{'' @ spell_object fs @ ''}''"
| "spell_array [] = []"
| "spell_array (x # xs) = spell x @ (if xs = [] then [] else '','' @ spell_array xs)"
| "spell_object [] = []"
| "spell_object ((k, x) # fs) = k @ '':'' @ spell x @ (if fs = [] then [] else '','' @ spell_object fs)"

definition spelling_env :: "(unit, nat) env" where
  "spelling_env =
     \<lparr>input_ok = True, output_ok = True,
      open_ok = (\<lambda>f. True), create_ok = (\<lambda>h. True), copy_ok = (\<lambda>f. True),
      write_ok = (\<lambda>h. True),
      parse = map_of
        [(''[{name:bob,id:U1,profile:{title:dev}}]'',
          TArr [TObj [(''name'', TStr ''bob''), (''id'', TStr ''U1''),
                      (''profile'', TObj [(''title'', TStr ''dev'')])]]),
         (''[{name:ghost},{id:U2,profile:{image_original:https://avatars.slack-edge.com/b.png}}]'',
          TArr [TObj [(''name'', TStr ''ghost'')],
                TObj [(''id'', TStr ''U2''),
                      (''profile'', TObj [(''image_original'',
                         TStr ''https://avatars.slack-edge.com/b.png'')])]]),
         (''[{id:U123,profile:{image_original:https://avatars.slack-edge.com/2020-01-01/U123_512.jpg}}]'',
          TArr [TObj [(''id'', TStr ''U123''),
                      (''profile'', TObj [(''image_original'',
                         TStr ''https://avatars.slack-edge.com/2020-01-01/U123_512.jpg'')])]]),
         (''[{id:U123,profile:{image_original:https://example.com/U123_512.jpg}}]'',
          TArr [TObj [(''id'', TStr ''U123''),
                      (''profile'', TObj [(''image_original'',
                         TStr ''https://example.com/U123_512.jpg'')])]]),
         (''[{id:U9,profile:{image_original:https://avatars.slack-edge.com/%zz.jpg}}]'',
          TArr [TObj [(''id'', TStr ''U9''),
                      (''profile'', TObj [(''image_original'',
                         TStr ''https://avatars.slack-edge.com/%zz.jpg'')])]])],
      render = spell,
      request_ok = (\<lambda>u. True), do_get = (\<lambda>u. Some ''JFIF''), created_meta = ()\<rparr>"



section \<open>Lemmas\<close>

subsection \<open>The retry loop\<close>

lemma requests_append: "requests (a @ b) = requests a @ requests b"
  by (induction a rule: requests.induct) auto

lemma Atoi_empty: "Atoi [] = None"
  by (simp add: Atoi_def)

lemma waitSec_eq: "waitSec ra = retry_after_seconds ra"
  by (cases ra) (simp_all add: waitSec_def retry_after_seconds_def Atoi_empty)

lemma wrap64_id: "- (2 ^ 63) \<le> x \<Longrightarrow> x < 2 ^ 63 \<Longrightarrow> wrap64 x = x"
  by (simp add: wrap64_def)

lemma backoff_eq: "backoff attempt = 2 ^ min attempt 3 * 1000000000"
proof -
  define x :: int where "x = 2 ^ min attempt 3"
  have "min attempt 3 \<le> 3" by simp
  then have "(2::int) ^ min attempt 3 \<le> 2 ^ 3"
    by (intro power_increasing) auto
  then have "x \<le> 8" by (simp add: x_def)
  moreover have "0 < x" by (simp add: x_def)
  ultimately have "- (2 ^ 63) \<le> x * 1000000000" and "x * 1000000000 < 2 ^ 63"
    by simp_all
  then have "wrap64 (x * 1000000000) = x * 1000000000"
    by (rule wrap64_id)
  then show ?thesis
    by (simp add: backoff_def Second_def x_def)
qed

lemma rateLimitWait_eq:
  "- 9223372036 \<le> retry_after_seconds ra \<Longrightarrow> retry_after_seconds ra \<le> 9223372036 \<Longrightarrow>
   rateLimitWait ra = retry_after_seconds ra * 1000000000"
  by (simp add: rateLimitWait_def waitSec_eq Second_def wrap64_id)

lemma attemptLoop_retries:
  "\<forall>r\<in>set rs. retryable r \<and> representable r \<Longrightarrow>
   attemptLoop limit cursor attempt (rs @ script) tr =
   attemptLoop limit cursor (attempt + length rs) script (tr @ retry_trace limit cursor attempt rs)"
proof (induction rs arbitrary: attempt tr)
  case Nil
  then show ?case by simp
next
  case (Cons r rs)
  then have IH: "attemptLoop limit cursor (Suc attempt) (rs @ script) tr' =
      attemptLoop limit cursor (Suc attempt + length rs) script
        (tr' @ retry_trace limit cursor (Suc attempt) rs)" for tr'
    by simp
  from Cons.prems have r: "retryable r" "representable r" by simp_all
  show ?case
  proof (cases r)
    case NetError
    then show ?thesis using IH by (simp add: backoff_eq)
  next
    case (Response status ra body)
    then show ?thesis using IH r by (auto simp: backoff_eq rateLimitWait_eq)
  qed
qed

lemma attemptLoop_requests:
  "\<forall>r\<in>set rs. retryable r \<Longrightarrow>
   \<exists>tr'. attemptLoop limit cursor attempt (rs @ script) tr =
           attemptLoop limit cursor (attempt + length rs) script tr' \<and>
         requests tr' = requests tr @ replicate (length rs) (limit, cursor)"
proof (induction rs arbitrary: attempt tr)
  case Nil
  show ?case by (intro exI [of _ tr]) simp
next
  case (Cons r rs)
  have step: "\<exists>d. attemptLoop limit cursor attempt ((r # rs) @ script) tr =
      attemptLoop limit cursor (Suc attempt) (rs @ script) (tr @ [Request limit cursor, Sleep d])"
    using Cons.prems by (cases r) auto
  then obtain d where d: "attemptLoop limit cursor attempt ((r # rs) @ script) tr =
      attemptLoop limit cursor (Suc attempt) (rs @ script) (tr @ [Request limit cursor, Sleep d])"
    by blast
  from Cons.IH [of "Suc attempt" "tr @ [Request limit cursor, Sleep d]"] Cons.prems
  obtain tr' where "attemptLoop limit cursor (Suc attempt) (rs @ script)
        (tr @ [Request limit cursor, Sleep d]) =
      attemptLoop limit cursor (Suc attempt + length rs) script tr'"
    and "requests tr' = requests (tr @ [Request limit cursor, Sleep d]) @
      replicate (length rs) (limit, cursor)"
    by auto
  with d show ?case
    by (intro exI [of _ tr']) (simp add: requests_append replicate_append_same)
qed

lemma attemptLoop_final:
  "\<not> retryable (Response status ra body) \<Longrightarrow>
   attemptLoop limit cursor attempt (Response status ra body # rest) tr =
     (Some ((status, body), rest), tr @ [Request limit cursor])"
  by simp

lemma attemptLoop_Some:
  "fst (attemptLoop limit cursor attempt script tr) = Some ((status, body), rest) \<Longrightarrow>
   \<exists>pre ra. script = pre @ Response status ra body # rest \<and> (\<forall>r\<in>set pre. retryable r) \<and>
     \<not> retryable (Response status ra body)"
proof (induction limit cursor attempt script tr rule: attemptLoop.induct)
  case (1 limit cursor attempt tr)
  then show ?case by simp
next
  case (2 limit cursor attempt script tr)
  then obtain pre ra where "script = pre @ Response status ra body # rest"
    "\<forall>r\<in>set pre. retryable r" "\<not> retryable (Response status ra body)"
    by auto
  then show ?case
    by (intro exI [of _ "NetError # pre"] exI [of _ ra]) simp
next
  case (3 limit cursor attempt st h b script tr)
  show ?case
  proof (cases "st = 429 \<or> st \<ge> 500")
    case True
    with 3 obtain pre ra where "script = pre @ Response status ra body # rest"
      "\<forall>r\<in>set pre. retryable r" "\<not> retryable (Response status ra body)"
      by (auto split: if_splits)
    with True show ?thesis
      by (intro exI [of _ "Response st h b # pre"] exI [of _ ra]) simp
  next
    case False
    with 3 show ?thesis
      by (intro exI [of _ "[]"] exI [of _ h]) auto
  qed
qed


lemma pageLoop_step:
  "attemptLoop limit cursor 0 script tr = (Some ((status, body), rest), tr') \<Longrightarrow>
   pageLoop limit pace cursor res script tr =
     (if status \<noteq> 200 then (Some (Inl (HttpCode status)), rest, tr')
      else (case body of
              Undecoded data \<Rightarrow> (Some (Inl BodyError), rest, tr')
            | Decoded data \<Rightarrow>
                if \<not> Ok data then (Some (Inl LackOfOk), rest, tr')
                else if NextCursor data = [] then
                  (Some (Inr (addMembers (Members data) res)), rest, tr')
                else pageLoop limit pace (NextCursor data)
                       (addMembers (Members data) res) rest
                       (if pace then tr' @ [Sleep 1000000000] else tr')))"
  by (subst pageLoop.simps) (simp add: wrap64_def Second_def split: body.splits)

lemma pageLoop_blocked:
  "attemptLoop limit cursor 0 script tr = (None, tr') \<Longrightarrow>
   pageLoop limit pace cursor res script tr = (None, [], tr')"
  by (subst pageLoop.simps) simp

lemma pageLoop_retries:
  assumes "\<forall>r\<in>set rs. retryable r \<and> representable r"
    and "\<not> retryable (Response status ra body)"
  shows "pageLoop limit pace cursor res (rs @ Response status ra body # rest) tr =
         pageLoop limit pace cursor res (Response status ra body # rest)
           (tr @ retry_trace limit cursor 0 rs)"
proof -
  let ?tr = "tr @ retry_trace limit cursor 0 rs"
  have "attemptLoop limit cursor 0 (rs @ Response status ra body # rest) tr =
        attemptLoop limit cursor (length rs) (Response status ra body # rest) ?tr"
    using attemptLoop_retries [OF assms(1), of limit cursor 0] by simp
  with assms(2) have 1: "attemptLoop limit cursor 0 (rs @ Response status ra body # rest) tr =
        (Some ((status, body), rest), ?tr @ [Request limit cursor])"
    by simp
  from assms(2) have 2: "attemptLoop limit cursor 0 (Response status ra body # rest) ?tr =
        (Some ((status, body), rest), ?tr @ [Request limit cursor])"
    by simp
  show ?thesis
    unfolding pageLoop_step [OF 1] pageLoop_step [OF 2] ..
qed

lemma pageLoop_only_retries:
  assumes "\<forall>r\<in>set rs. retryable r \<and> representable r"
  shows "pageLoop limit pace cursor res rs tr = (None, [], tr @ retry_trace limit cursor 0 rs)"
proof -
  have "attemptLoop limit cursor 0 (rs @ []) tr =
        attemptLoop limit cursor (0 + length rs) [] (tr @ retry_trace limit cursor 0 rs)"
    by (rule attemptLoop_retries [OF assms])
  then have "attemptLoop limit cursor 0 rs tr = (None, tr @ retry_trace limit cursor 0 rs)"
    by simp
  then show ?thesis by (rule pageLoop_blocked)
qed

lemma pageLoop_only_retries_requests:
  assumes "\<forall>r\<in>set rs. retryable r"
  shows "fst (pageLoop limit pace cursor res rs tr) = None \<and>
         requests (snd (snd (pageLoop limit pace cursor res rs tr))) =
           requests tr @ replicate (length rs) (limit, cursor)"
proof -
  from attemptLoop_requests [OF assms, of limit cursor 0 "[]" tr]
  obtain tr' where "attemptLoop limit cursor 0 rs tr = (None, tr')"
    and "requests tr' = requests tr @ replicate (length rs) (limit, cursor)"
    by auto
  then show ?thesis
    by (simp add: pageLoop_blocked)
qed

lemma addMembers_append: "addMembers (a @ b) res = addMembers b (addMembers a res)"
  by (induction a arbitrary: res) auto

lemma pageLoop_pages:
  "\<forall>data\<in>set pages. Ok data \<and> NextCursor data \<noteq> [] \<Longrightarrow>
   pageLoop limit pace cursor res (map success_response pages @ script) tr =
   pageLoop limit pace (last_cursor cursor pages)
     (addMembers (concat (map Members pages)) res) script
     (tr @ pages_trace limit pace cursor pages)"
proof (induction pages arbitrary: cursor res tr)
  case Nil
  then show ?case by simp
next
  case (Cons data pages)
  have "attemptLoop limit cursor 0 (map success_response (data # pages) @ script) tr =
      (Some ((200, Decoded data), map success_response pages @ script), tr @ [Request limit cursor])"
    by (simp add: success_response_def)
  from pageLoop_step [OF this] Cons.prems
  have "pageLoop limit pace cursor res (map success_response (data # pages) @ script) tr =
      pageLoop limit pace (NextCursor data) (addMembers (Members data) res)
        (map success_response pages @ script)
        (tr @ Request limit cursor # (if pace then [Sleep 1000000000] else []))"
    by simp
  also have "\<dots> = pageLoop limit pace (last_cursor (NextCursor data) pages)
      (addMembers (concat (map Members pages)) (addMembers (Members data) res)) script
      ((tr @ Request limit cursor # (if pace then [Sleep 1000000000] else [])) @
        pages_trace limit pace (NextCursor data) pages)"
    using Cons.prems by (intro Cons.IH) simp
  finally show ?case by (simp add: addMembers_append)
qed

lemma pageLoop_last_page:
  "Ok data \<Longrightarrow> NextCursor data = [] \<Longrightarrow>
   pageLoop limit pace cursor res (success_response data # rest) tr =
     (Some (Inr (addMembers (Members data) res)), rest, tr @ [Request limit cursor])"
proof -
  have "attemptLoop limit cursor 0 (success_response data # rest) tr =
      (Some ((200, Decoded data), rest), tr @ [Request limit cursor])"
    by (simp add: success_response_def)
  from pageLoop_step [OF this] show "Ok data \<Longrightarrow> NextCursor data = [] \<Longrightarrow> ?thesis"
    by simp
qed

lemma requests_pages_trace:
  "map snd (requests (pages_trace limit pace cursor pages @ [Request limit (last_cursor cursor pages)])) =
     cursor # map NextCursor pages"
  by (induction pages arbitrary: cursor) (auto simp: requests_append)

lemma length_requests_pages_trace:
  "length (requests (pages_trace limit pace cursor pages)) = length pages"
  by (induction pages arbitrary: cursor) (auto simp: requests_append)

lemma attemptLoop_shorter:
  "attemptLoop limit cursor attempt script tr = (Some (r, rest), tr') \<Longrightarrow> length rest < length script"
  using attemptLoop_Some [of limit cursor attempt script tr "fst r" "snd r" rest] by auto

lemma pageLoop_error_only_if:
  "pageLoop limit pace cursor res script tr = (Some (Inl e), rest, tr') \<Longrightarrow>
   \<exists>pre status ra body. script = pre @ Response status ra body # rest \<and> fatal status body"
proof (induction "length script" arbitrary: script cursor res tr rule: less_induct)
  case less
  obtain x tr0 where a: "attemptLoop limit cursor 0 script tr = (x, tr0)"
    by (cases "attemptLoop limit cursor 0 script tr")
  show ?case
  proof (cases x)
    case None
    with a less.prems show ?thesis by (simp add: pageLoop_blocked)
  next
    case (Some y)
    obtain status body rest0 where y: "y = ((status, body), rest0)"
      by (cases y) auto
    from a Some y have a': "attemptLoop limit cursor 0 script tr = (Some ((status, body), rest0), tr0)"
      by simp
    then have "fst (attemptLoop limit cursor 0 script tr) = Some ((status, body), rest0)"
      by simp
    from attemptLoop_Some [OF this] obtain pre ra where
      script: "script = pre @ Response status ra body # rest0" and nr: "\<not> retryable (Response status ra body)"
      by blast
    have here: "\<exists>pre status ra body. script = pre @ Response status ra body # rest \<and> fatal status body"
      if "rest = rest0" "fatal status body"
      using that script by blast
    note step = pageLoop_step [OF a', of pace res]
    show ?thesis
    proof (cases "status \<noteq> 200")
      case True
      with step less.prems nr show ?thesis
        by (intro here) (auto simp: fatal_def terminal_status_def)
    next
      case False
      then have s200: "status = 200" by simp
      show ?thesis
      proof (cases body)
        case (Undecoded data)
        with step s200 less.prems show ?thesis
          by (intro here) (auto simp: fatal_def)
      next
        case (Decoded data)
        show ?thesis
        proof (cases "Ok data")
          case False
          with step s200 Decoded less.prems show ?thesis
            by (intro here) (auto simp: fatal_def lacks_ok_def)
        next
          case True
          show ?thesis
          proof (cases "NextCursor data = []")
            case True
            with step s200 Decoded \<open>Ok data\<close> less.prems show ?thesis by simp
          next
            case False
            with step s200 Decoded \<open>Ok data\<close> less.prems
            have "pageLoop limit pace (NextCursor data) (addMembers (Members data) res) rest0
                (if pace then tr0 @ [Sleep 1000000000] else tr0) = (Some (Inl e), rest, tr')"
              by simp
            moreover have "length rest0 < length script"
              using script by simp
            ultimately obtain pre1 st1 ra1 body1 where
              "rest0 = pre1 @ Response st1 ra1 body1 # rest" "fatal st1 body1"
              using less.hyps by blast
            with script show ?thesis
              by (intro exI [of _ "pre @ Response status ra body # pre1"] exI [of _ st1]
                  exI [of _ ra1] exI [of _ body1]) simp
          qed
        qed
      qed
    qed
  qed
qed

lemma pageLoop_error_if:
  assumes "\<forall>r\<in>set pre. retryable r" and "fatal status body"
  shows "\<exists>e tr'. pageLoop limit pace cursor res (pre @ Response status ra body # rest) tr =
           (Some (Inl e), rest, tr') \<and>
         requests tr' = requests tr @ replicate (Suc (length pre)) (limit, cursor)"
proof -
  from assms(2) have nr: "\<not> retryable (Response status ra body)"
    by (auto simp: fatal_def terminal_status_def)
  from attemptLoop_requests [OF assms(1), of limit cursor 0 "Response status ra body # rest" tr]
  obtain tr0 where "attemptLoop limit cursor 0 (pre @ Response status ra body # rest) tr =
      attemptLoop limit cursor (length pre) (Response status ra body # rest) tr0"
    and r: "requests tr0 = requests tr @ replicate (length pre) (limit, cursor)"
    by auto
  with nr have "attemptLoop limit cursor 0 (pre @ Response status ra body # rest) tr =
      (Some ((status, body), rest), tr0 @ [Request limit cursor])"
    by simp
  from pageLoop_step [OF this, of pace res] assms(2) r show ?thesis
    by (auto simp: fatal_def terminal_status_def lacks_ok_def requests_append
        replicate_append_same split: body.splits)
qed

lemma attemptLoop_limit:
  "fst ` set (requests (snd (attemptLoop limit cursor attempt script tr))) \<subseteq>
     insert limit (fst ` set (requests tr))"
  by (induction limit cursor attempt script tr rule: attemptLoop.induct)
    (auto simp: requests_append)

lemma pageLoop_limit:
  "fst ` set (requests (snd (snd (pageLoop limit pace cursor res script tr)))) \<subseteq>
     insert limit (fst ` set (requests tr))"
proof (induction "length script" arbitrary: script cursor res tr rule: less_induct)
  case less
  obtain x tr0 where a: "attemptLoop limit cursor 0 script tr = (x, tr0)"
    by (cases "attemptLoop limit cursor 0 script tr")
  from attemptLoop_limit [of limit cursor 0 script tr] a
  have tr0: "fst ` set (requests tr0) \<subseteq> insert limit (fst ` set (requests tr))"
    by simp
  show ?case
  proof (cases x)
    case None
    with a tr0 show ?thesis by (simp add: pageLoop_blocked)
  next
    case (Some y)
    obtain status body rest0 where y: "y = ((status, body), rest0)"
      by (cases y) auto
    from a Some y have a': "attemptLoop limit cursor 0 script tr = (Some ((status, body), rest0), tr0)"
      by simp
    from attemptLoop_shorter [OF a'] have "length rest0 < length script" .
    from less.hyps [OF this, of "NextCursor data" "addMembers (Members data) res"
        "if pace then tr0 @ [Sleep 1000000000] else tr0" for data :: page]
    have IH: "fst ` set (requests (snd (snd (pageLoop limit pace (NextCursor data)
        (addMembers (Members data) res) rest0 (if pace then tr0 @ [Sleep 1000000000] else tr0)))))
        \<subseteq> insert limit (fst ` set (requests tr0))" for data :: page
      by (cases pace) (simp_all add: requests_append)
    have IH': "fst ` set (requests (snd (snd (pageLoop limit pace (NextCursor data)
        (addMembers (Members data) res) rest0 (if pace then tr0 @ [Sleep 1000000000] else tr0)))))
        \<subseteq> insert limit (fst ` set (requests tr))" for data :: page
      using IH [of data] tr0 by blast
    show ?thesis
      unfolding pageLoop_step [OF a']
      using tr0 IH' by (cases pace) (simp_all split: body.splits)
  qed
qed

subsection \<open>The record store\<close>

lemma map_set_keys: "set (map fst (map_set k v m)) = insert k (set (map fst m))"
  by (induction k v m rule: map_set.induct) (simp_all add: insert_commute)

lemma map_set_sorted:
  "sorted_wrt (<) (map fst m) \<Longrightarrow> sorted_wrt (<) (map fst (map_set k v m))"
proof (induction m)
  case Nil
  then show ?case by simp
next
  case (Cons a m)
  obtain k' v' where a: "a = (k', v')" by (cases a)
  have "\<forall>x\<in>set (map fst (map_set k v m)). k' < x" if "k' < k"
    using Cons.prems that unfolding map_set_keys a by auto
  with Cons show ?case unfolding a by (auto simp: not_less)
qed

lemma map_set_canonical:
  "canonical x \<Longrightarrow> canonical_map m \<Longrightarrow> canonical_map (map_set k x m)"
  by (induction m) auto

lemma map_of_map_set: "map_of (map_set k v m) = (map_of m)(k \<mapsto> v)"
  by (induction k v m rule: map_set.induct) auto

lemma decode_canonical:
  "canonical (decode_value (t :: 'n json))"
  "canonical_slice (decode_array (ts :: 'n json list))"
  "sorted_wrt (<) (map fst m) \<Longrightarrow> canonical_map m \<Longrightarrow>
     sorted_wrt (<) (map fst (decode_object (fs :: (string \<times> 'n json) list) m)) \<and> canonical_map (decode_object fs m)"
proof (induction t and ts and fs m rule: decode_value_decode_array_decode_object.induct)
qed (simp_all add: map_set_sorted map_set_canonical)

lemma map_set_append:
  "\<forall>a\<in>set acc. fst a < k \<Longrightarrow> map_set k v acc = acc @ [(k, v)]"
  by (induction acc) auto

lemma encode_decode:
  "canonical (g :: 'n gval) \<Longrightarrow> decode_value (encode_value g) = g"
  "canonical_slice (gs :: 'n gval list) \<Longrightarrow> decode_array (encode_slice gs) = gs"
  "canonical_map (m :: (string \<times> 'n gval) list) \<Longrightarrow> sorted_wrt (<) (map fst m) \<Longrightarrow>
     (\<forall>acc. (\<forall>a\<in>set acc. \<forall>b\<in>set m. fst a < fst b) \<longrightarrow> decode_object (encode_map m) acc = acc @ m)"
proof (induction g and gs and m rule: encode_value_encode_slice_encode_map.induct)
  case (10 k x m)
  show ?case
  proof (intro allI impI)
    fix acc :: "(string \<times> 'n gval) list"
    assume acc: "\<forall>a\<in>set acc. \<forall>b\<in>set ((k, x) # m). fst a < fst b"
    then have "map_set k x acc = acc @ [(k, x)]"
      by (intro map_set_append) auto
    moreover have "\<forall>a\<in>set (acc @ [(k, x)]). \<forall>b\<in>set m. fst a < fst b"
      using acc "10.prems" by auto
    ultimately show "decode_object (encode_map ((k, x) # m)) acc = acc @ (k, x) # m"
      using 10 by simp
  qed
qed simp_all

lemma encode_map_names: "map fst (encode_map m) = map fst m"
  by (induction m) auto

lemma encode_ordered:
  "canonical (g :: 'n gval) \<Longrightarrow> ordered (encode_value g)"
  "canonical_slice (gs :: 'n gval list) \<Longrightarrow> ordered_array (encode_slice gs)"
  "canonical_map (m :: (string \<times> 'n gval) list) \<Longrightarrow> ordered_object (encode_map m)"
  by (induction g and gs and m rule: encode_value_encode_slice_encode_map.induct)
    (simp_all add: encode_map_names)

lemma is_record_reencode:
  "list_all is_record xs \<Longrightarrow> list_all is_record (encode_slice (decode_array xs))"
proof (induction xs)
  case Nil
  then show ?case by simp
next
  case (Cons x xs)
  then show ?case by (cases x) simp_all
qed

lemma decode_users_canonical: "decode_users doc = Inr data \<Longrightarrow> canonical data"
  by (cases doc) (auto simp: decode_canonical split: if_splits)

lemma decode_users_encode:
  assumes "decode_users doc = Inr data"
  shows "decode_users (encode_value data) = Inr data"
proof (cases doc)
  case (TArr xs)
  with assms have xs: "list_all is_record xs" and data: "data = GSlice (decode_array xs)"
    by (auto split: if_splits)
  have "decode_array (encode_slice (decode_array xs)) = decode_array xs"
    by (intro encode_decode decode_canonical)
  with xs data show ?thesis
    by (simp add: is_record_reencode)
qed (use assms in auto)

lemma encode_map_append: "encode_map (a @ b) = encode_map a @ encode_map b"
  by (induction a) auto

lemma decode_encode:
  "ordered (t :: 'n json) \<Longrightarrow> encode_value (decode_value t) = t"
  "ordered_array (ts :: 'n json list) \<Longrightarrow> encode_slice (decode_array ts) = ts"
  "ordered_object (fs :: (string \<times> 'n json) list) \<Longrightarrow> sorted_wrt (<) (map fst fs) \<Longrightarrow>
     (\<forall>a\<in>set m. \<forall>b\<in>set fs. fst a < fst b) \<Longrightarrow>
     encode_map (decode_object fs m) = encode_map m @ fs"
proof (induction t and ts and fs m rule: decode_value_decode_array_decode_object.induct)
  case (10 k x fs m)
  from "10.prems" have "map_set k (decode_value x) m = m @ [(k, decode_value x)]"
    by (intro map_set_append) auto
  moreover have "\<forall>a\<in>set (m @ [(k, decode_value x)]). \<forall>b\<in>set fs. fst a < fst b"
    using "10.prems" by auto
  ultimately show ?case
    using 10 by (simp add: encode_map_append)
qed simp_all

lemma encode_map_member:
  "map_of m k = Some v \<Longrightarrow> (k, encode_value v) \<in> set (encode_map m)"
  by (induction m) (auto split: if_splits)

lemma field_store_field:
  "field user k = Some old \<Longrightarrow> field (store_field user k v) = (field user)(k \<mapsto> v)"
  by (cases user) (auto simp: map_of_map_set)

subsection \<open>Picture names\<close>






subsection \<open>The entries of the archive\<close>

lemma copied_entry:
  "\<lparr>FileHeader = FileHeader f, Content = Content f\<rparr> = (f :: 'm zip_file)"
  by (cases f) simp

lemma emailsFiles_filter:
  "emailsFiles env limit pace files w script tr = (Some (Inr out), rest, tr') \<Longrightarrow>
   filter other_entry out = filter other_entry w @ filter other_entry files"
proof (induction files arbitrary: w script tr)
  case Nil
  then show ?case by simp
next
  case (Cons entry files)
  show ?case
  proof (cases "Name (FileHeader entry) = ''users.json''")
    case True
    with Cons.prems obtain bytes s1 t1 where
      "emailsFiles env limit pace files (w @ [\<lparr>FileHeader = FileHeader entry, Content = bytes\<rparr>]) s1 t1 =
         (Some (Inr out), rest, tr')"
      by (auto split: if_splits prod.splits option.splits sum.splits)
    from Cons.IH [OF this] True show ?thesis
      by (simp add: other_entry_def)
  next
    case False
    with Cons.prems have
      "emailsFiles env limit pace files (w @ [\<lparr>FileHeader = FileHeader entry, Content = Content entry\<rparr>])
         script tr = (Some (Inr out), rest, tr')"
      by (auto split: if_splits)
    from Cons.IH [OF this] False show ?thesis
      by (simp add: other_entry_def)
  qed
qed

lemma emailsFiles_plain:
  "\<forall>f\<in>set files. other_entry f \<and> open_ok env f \<and> create_ok env (FileHeader f) \<and> copy_ok env f \<Longrightarrow>
   emailsFiles env limit pace files w script tr = (Some (Inr (w @ files)), script, tr)"
  by (induction files arbitrary: w) (simp_all add: other_entry_def)

lemma downloadPicture_extends:
  "downloadPicture env user w gets = Inr (user', w', gets') \<Longrightarrow> \<exists>new. w' = w @ new"
  unfolding downloadPicture_def
  by (auto simp: Let_def split: option.splits gval.splits if_splits)

lemma pictureLoop_extends:
  "pictureLoop env users w gets = Inr (users', w', gets') \<Longrightarrow> \<exists>new. w' = w @ new"
proof (induction users arbitrary: w gets users')
  case Nil
  then show ?case by simp
next
  case (Cons user users)
  from Cons.prems obtain u1 w1 g1 us2 where
    1: "downloadPicture env user w gets = Inr (u1, w1, g1)" and
    2: "pictureLoop env users w1 g1 = Inr (us2, w', gets')"
    by (auto split: sum.splits prod.splits)
  from downloadPicture_extends [OF 1] Cons.IH [OF 2] show ?case by auto
qed

lemma downloadPictures_extends:
  "downloadPictures env file w gets = Inr (w', gets') \<Longrightarrow> \<exists>new. w' = w @ new"
  unfolding downloadPictures_def
  by (auto simp: Let_def split: option.splits sum.splits if_splits dest!: pictureLoop_extends)

lemma picturesFiles_member:
  "picturesFiles env files w gets = Inr (out, gets') \<Longrightarrow>
   set w \<subseteq> set out \<and> (\<forall>f\<in>set files. other_entry f \<longrightarrow> f \<in> set out)"
proof (induction files arbitrary: w gets)
  case Nil
  then show ?case by simp
next
  case (Cons entry files)
  show ?case
  proof (cases "Name (FileHeader entry) = ''users.json''")
    case True
    with Cons.prems obtain w1 g1 where
      1: "downloadPictures env entry w gets = Inr (w1, g1)" and
      2: "picturesFiles env files w1 g1 = Inr (out, gets')"
      by (auto split: if_splits sum.splits)
    from downloadPictures_extends [OF 1] Cons.IH [OF 2] True show ?thesis
      by (auto simp: other_entry_def)
  next
    case False
    with Cons.prems have
      "picturesFiles env files (w @ [\<lparr>FileHeader = FileHeader entry, Content = Content entry\<rparr>]) gets =
         Inr (out, gets')"
      by (auto split: if_splits)
    from Cons.IH [OF this] show ?thesis by (auto simp: copied_entry)
  qed
qed

lemma picturesFiles_plain:
  "\<forall>f\<in>set files. other_entry f \<and> open_ok env f \<and> create_ok env (FileHeader f) \<and> copy_ok env f \<Longrightarrow>
   picturesFiles env files w gets = Inr (w @ files, gets)"
  by (induction files arbitrary: w) (simp_all add: other_entry_def)

subsection \<open>The records of users.json\<close>

lemma setUserEmail_email:
  assumes "field user ''id'' = Some (GString userid)"
    and "field user ''profile'' = Some (GMap profile)"
  shows "\<exists>profile' fs.
           profile' = map_set ''email''
             (GString (case emails userid of Some email \<Rightarrow> email | None \<Rightarrow> [])) profile \<and>
           field (setUserEmail emails user) = (field user)(''profile'' \<mapsto> GMap profile') \<and>
           map_of profile' = (map_of profile)(''email'' \<mapsto>
             GString (case emails userid of Some email \<Rightarrow> email | None \<Rightarrow> [])) \<and>
           encode_value (setUserEmail emails user) = TObj fs \<and>
           (''profile'', TObj (encode_map profile')) \<in> set fs \<and>
           (''email'', TStr (case emails userid of Some email \<Rightarrow> email | None \<Rightarrow> []))
             \<in> set (encode_map profile')"
proof -
  let ?e = "case emails userid of Some email \<Rightarrow> email | None \<Rightarrow> []"
  let ?p = "map_set ''email'' (GString ?e) profile"
  from assms(1) obtain m where user: "user = GMap m"
    by (cases user) auto
  have upd: "setUserEmail emails user = store_field user ''profile'' (GMap ?p)"
    using assms by (simp add: setUserEmail_def lookupEmail_def)
  have 1: "field (setUserEmail emails user) = (field user)(''profile'' \<mapsto> GMap ?p)"
    unfolding upd using assms(2) by (rule field_store_field)
  have 2: "map_of ?p = (map_of profile)(''email'' \<mapsto> GString ?e)"
    by (rule map_of_map_set)
  have 3: "encode_value (setUserEmail emails user) =
      TObj (encode_map (map_set ''profile'' (GMap ?p) m))"
    using upd by (simp add: user)
  have "map_of (map_set ''profile'' (GMap ?p) m) ''profile'' = Some (GMap ?p)"
    by (simp add: map_of_map_set)
  from encode_map_member [OF this]
  have 4: "(''profile'', TObj (encode_map ?p)) \<in> set (encode_map (map_set ''profile'' (GMap ?p) m))"
    by simp
  have "map_of ?p ''email'' = Some (GString ?e)"
    by (simp add: map_of_map_set)
  from encode_map_member [OF this]
  have 5: "(''email'', TStr ?e) \<in> set (encode_map ?p)"
    by simp
  from 1 2 3 4 5 show ?thesis by blast
qed

lemma encode_slice_map: "encode_slice xs = map encode_value xs"
  by (induction xs) auto

lemma canonical_map_of:
  "canonical_map m \<Longrightarrow> map_of m k = Some v \<Longrightarrow> canonical v"
  by (induction m) (auto split: if_splits)

lemma canonical_slice_nth: "canonical_slice xs \<Longrightarrow> i < length xs \<Longrightarrow> canonical (xs ! i)"
  by (induction xs arbitrary: i) (auto simp: nth_Cons split: nat.splits)

lemma canonical_store_field:
  "canonical user \<Longrightarrow> canonical v \<Longrightarrow> canonical (store_field user k v)"
  by (cases user) (auto simp: map_set_sorted map_set_canonical)

lemma canonical_field: "canonical user \<Longrightarrow> field user k = Some v \<Longrightarrow> canonical v"
  by (cases user) (auto dest: canonical_map_of)

lemma canonical_setUserEmail: "canonical user \<Longrightarrow> canonical (setUserEmail emails user)"
proof -
  assume c: "canonical user"
  have "canonical (store_field user ''profile''
      (GMap (map_set ''email'' (GString e) profile)))"
    if "field user ''profile'' = Some (GMap profile)" for e profile
  proof -
    from canonical_field [OF c that] have "canonical (GMap (map_set ''email'' (GString e) profile))"
      by (simp add: map_set_sorted map_set_canonical)
    with c show ?thesis by (rule canonical_store_field)
  qed
  with c show ?thesis
    by (auto simp: setUserEmail_def split: option.splits gval.splits)
qed

lemma users_of_nonempty: "users_of data \<noteq> [] \<Longrightarrow> data = GSlice (users_of data)"
  by (cases data) auto

lemma processUsersJson_written:
  assumes "parse env (Content file) = Some doc" and "decode_users doc = Inr data"
    and "fetchUserEmails n pace script tr = (Some (Inr emails), rest, tr')"
    and "write_ok env (FileHeader file)" and "users_of data \<noteq> []"
  shows "processUsersJson env n pace file script tr =
           (Some (Inr (render env
              (TArr (map (\<lambda>user. encode_value (setUserEmail emails user)) (users_of data))))),
            rest, tr')"
proof -
  from assms(5) have "data = GSlice (users_of data)" by (rule users_of_nonempty)
  then have "encode_value (with_users data (map (setUserEmail emails) (users_of data))) =
      TArr (map (\<lambda>user. encode_value (setUserEmail emails user)) (users_of data))"
    by (cases data) (simp_all add: encode_slice_map comp_def)
  with assms show ?thesis
    by (simp add: processUsersJson_def)
qed

lemma encode_with_users:
  "users_of data = before @ user # after \<Longrightarrow>
   encode_value (with_users data users') = TArr (map encode_value users')"
  by (cases data) (simp_all add: encode_slice_map)





lemma pictureLoop_length:
  "pictureLoop env users w gets = Inr (users', w', gets') \<Longrightarrow> length users' = length users"
proof (induction users arbitrary: w gets users')
  case Nil
  then show ?case by simp
next
  case (Cons user users)
  from Cons.prems obtain u1 w1 g1 us2 where
    "pictureLoop env users w1 g1 = Inr (us2, w', gets')" "users' = u1 # us2"
    by (auto split: sum.splits prod.splits)
  with Cons.IH show ?case by auto
qed

lemma pictureLoop_skip:
  assumes "downloadPicture env user = (\<lambda>w gets. Inr (user, w, gets))"
  shows "pictureLoop env (before @ user # after) w gets =
     (case pictureLoop env (before @ after) w gets of
        Inl e \<Rightarrow> Inl e
      | Inr (users', w', gets') \<Rightarrow>
          Inr (take (length before) users' @ user # drop (length before) users', w', gets'))"
proof (induction before arbitrary: w gets)
  case Nil
  show ?case by (simp add: assms split: sum.splits)
next
  case (Cons b before)
  show ?case
    by (simp add: Cons.IH split: sum.splits prod.splits)
qed

section \<open>Properties\<close>

subsection \<open>The archive\<close>

text \<open>
  C1. When a run of either command completes, every entry of the input whose name is not
  \<open>users.json\<close> is in the output with the same header and the same bytes; in
  fetch-emails the output holds exactly these entries besides the target, in the order
  of the input. When no entry is named \<open>users.json\<close> and the archives and
  entries can be opened, created and copied, the run succeeds, its output is the input,
  and no request is made.
\<close>

theorem other_entries_copied:
  "(fetchEmails env n pace r script = (Some (Inr out), rest, tr) \<longrightarrow>
      filter other_entry out = filter other_entry r) \<and>
   (fetchProfilePics env r = Inr (out', gets) \<longrightarrow>
      (\<forall>f\<in>set r. other_entry f \<longrightarrow> f \<in> set out')) \<and>
   (input_ok env \<and> output_ok env \<and>
    (\<forall>f\<in>set r. other_entry f \<and> open_ok env f \<and> create_ok env (FileHeader f) \<and> copy_ok env f) \<longrightarrow>
      fetchEmails env n pace r script = (Some (Inr r), script, []) \<and>
      fetchProfilePics env r = Inr (r, []))"
proof (intro conjI impI)
  assume "fetchEmails env n pace r script = (Some (Inr out), rest, tr)"
  then have "emailsFiles env n pace r [] script [] = (Some (Inr out), rest, tr)"
    by (auto simp: fetchEmails_def split: if_splits)
  from emailsFiles_filter [OF this] show "filter other_entry out = filter other_entry r"
    by simp
next
  assume "fetchProfilePics env r = Inr (out', gets)"
  then have "picturesFiles env r [] [] = Inr (out', gets)"
    by (auto simp: fetchProfilePics_def split: if_splits)
  from picturesFiles_member [OF this] show "\<forall>f\<in>set r. other_entry f \<longrightarrow> f \<in> set out'"
    by simp
next
  assume a: "input_ok env \<and> output_ok env \<and>
    (\<forall>f\<in>set r. other_entry f \<and> open_ok env f \<and> create_ok env (FileHeader f) \<and> copy_ok env f)"
  then show "fetchEmails env n pace r script = (Some (Inr r), script, [])"
    by (simp add: fetchEmails_def emailsFiles_plain)
  from a show "fetchProfilePics env r = Inr (r, [])"
    by (simp add: fetchProfilePics_def picturesFiles_plain)
qed

text \<open>
  An archive of two entries, neither of them the target, and the same archive with
  \<open>users.json\<close> between the two, in both commands.
\<close>

theorem other_entries_copied_witness:
  "fetchEmails example_env 200 True
     [\<lparr>FileHeader = \<lparr>Name = ''channels.json'', Meta = ()\<rparr>, Content = ''[]''\<rparr>,
      \<lparr>FileHeader = \<lparr>Name = ''general/2020-01-01.json'', Meta = ()\<rparr>, Content = ''[{}]''\<rparr>] [] =
     (Some (Inr
       [\<lparr>FileHeader = \<lparr>Name = ''channels.json'', Meta = ()\<rparr>, Content = ''[]''\<rparr>,
        \<lparr>FileHeader = \<lparr>Name = ''general/2020-01-01.json'', Meta = ()\<rparr>, Content = ''[{}]''\<rparr>]),
      [], []) \<and>
   fetchProfilePics example_env
     [\<lparr>FileHeader = \<lparr>Name = ''channels.json'', Meta = ()\<rparr>, Content = ''[]''\<rparr>,
      \<lparr>FileHeader = \<lparr>Name = ''general/2020-01-01.json'', Meta = ()\<rparr>, Content = ''[{}]''\<rparr>] =
     Inr ([\<lparr>FileHeader = \<lparr>Name = ''channels.json'', Meta = ()\<rparr>, Content = ''[]''\<rparr>,
           \<lparr>FileHeader = \<lparr>Name = ''general/2020-01-01.json'', Meta = ()\<rparr>, Content = ''[{}]''\<rparr>],
          []) \<and>
   fetchEmails example_env 200 True
     [\<lparr>FileHeader = \<lparr>Name = ''channels.json'', Meta = ()\<rparr>, Content = ''[]''\<rparr>,
      \<lparr>FileHeader = \<lparr>Name = ''users.json'', Meta = ()\<rparr>, Content = ''[U1]''\<rparr>,
      \<lparr>FileHeader = \<lparr>Name = ''general/2020-01-01.json'', Meta = ()\<rparr>, Content = ''[{}]''\<rparr>]
     [Response 200 [] (Decoded \<lparr>Ok = True, Members = [], NextCursor = []\<rparr>)] =
     (Some (Inr
       [\<lparr>FileHeader = \<lparr>Name = ''channels.json'', Meta = ()\<rparr>, Content = ''[]''\<rparr>,
        \<lparr>FileHeader = \<lparr>Name = ''users.json'', Meta = ()\<rparr>, Content = ''...''\<rparr>,
        \<lparr>FileHeader = \<lparr>Name = ''general/2020-01-01.json'', Meta = ()\<rparr>, Content = ''[{}]''\<rparr>]),
      [], [Request 200 []]) \<and>
   fetchProfilePics example_env
     [\<lparr>FileHeader = \<lparr>Name = ''channels.json'', Meta = ()\<rparr>, Content = ''[]''\<rparr>,
      \<lparr>FileHeader = \<lparr>Name = ''users.json'', Meta = ()\<rparr>, Content = ''[U1]''\<rparr>,
      \<lparr>FileHeader = \<lparr>Name = ''general/2020-01-01.json'', Meta = ()\<rparr>, Content = ''[{}]''\<rparr>] =
     Inr ([\<lparr>FileHeader = \<lparr>Name = ''channels.json'', Meta = ()\<rparr>, Content = ''[]''\<rparr>,
           \<lparr>FileHeader = \<lparr>Name = ''users.json'', Meta = ()\<rparr>, Content = ''...''\<rparr>,
           \<lparr>FileHeader = \<lparr>Name = ''general/2020-01-01.json'', Meta = ()\<rparr>, Content = ''[{}]''\<rparr>],
          [])"
  using other_entries_copied [of example_env 200 True
      "[\<lparr>FileHeader = \<lparr>Name = ''channels.json'', Meta = ()\<rparr>, Content = ''[]''\<rparr>,
        \<lparr>FileHeader = \<lparr>Name = ''general/2020-01-01.json'', Meta = ()\<rparr>, Content = ''[{}]''\<rparr>]"
      "[]"
      "[\<lparr>FileHeader = \<lparr>Name = ''channels.json'', Meta = ()\<rparr>, Content = ''[]''\<rparr>,
        \<lparr>FileHeader = \<lparr>Name = ''general/2020-01-01.json'', Meta = ()\<rparr>, Content = ''[{}]''\<rparr>]"
      "[]" "[]"
      "[\<lparr>FileHeader = \<lparr>Name = ''channels.json'', Meta = ()\<rparr>, Content = ''[]''\<rparr>,
        \<lparr>FileHeader = \<lparr>Name = ''general/2020-01-01.json'', Meta = ()\<rparr>, Content = ''[{}]''\<rparr>]"
      "[]"]
    other_entries_copied [of example_env 200 True
      "[\<lparr>FileHeader = \<lparr>Name = ''channels.json'', Meta = ()\<rparr>, Content = ''[]''\<rparr>,
        \<lparr>FileHeader = \<lparr>Name = ''users.json'', Meta = ()\<rparr>, Content = ''[U1]''\<rparr>,
        \<lparr>FileHeader = \<lparr>Name = ''general/2020-01-01.json'', Meta = ()\<rparr>, Content = ''[{}]''\<rparr>]"
      "[Response 200 [] (Decoded \<lparr>Ok = True, Members = [], NextCursor = []\<rparr>)]"
      "[\<lparr>FileHeader = \<lparr>Name = ''channels.json'', Meta = ()\<rparr>, Content = ''[]''\<rparr>,
        \<lparr>FileHeader = \<lparr>Name = ''users.json'', Meta = ()\<rparr>, Content = ''...''\<rparr>,
        \<lparr>FileHeader = \<lparr>Name = ''general/2020-01-01.json'', Meta = ()\<rparr>, Content = ''[{}]''\<rparr>]"
      "[]" "[Request 200 []]"
      "[\<lparr>FileHeader = \<lparr>Name = ''channels.json'', Meta = ()\<rparr>, Content = ''[]''\<rparr>,
        \<lparr>FileHeader = \<lparr>Name = ''users.json'', Meta = ()\<rparr>, Content = ''...''\<rparr>,
        \<lparr>FileHeader = \<lparr>Name = ''general/2020-01-01.json'', Meta = ()\<rparr>, Content = ''[{}]''\<rparr>]"
      "[]"]
  by (simp add: example_env_def other_entry_def fetchEmails_def fetchProfilePics_def
      processUsersJson_def downloadPictures_def downloadPicture_def fetchUserEmails_def
      clampPageLimit_def pageLoop.simps)

subsection \<open>fetch-emails\<close>

text \<open>
  C2. When \<^verbatim>\<open>processUsersJson\<close> has its table and writes its output, the output is
  the array of the records in their order, and for a record with a string \<open>id\<close> and
  a \<open>profile\<close> object the written record has in its \<open>profile\<close> the member
  \<open>email\<close>, with the value of the table for that id and the empty string when the
  id is not in the table; read back, the written record is the record with that one
  field of the profile set and every other field of the profile and of the record as
  before.
\<close>

theorem processUsersJson_email:
  assumes "parse env (Content file) = Some doc" and "decode_users doc = Inr data"
    and "fetchUserEmails n pace script tr = (Some (Inr emails), rest, tr')"
    and "write_ok env (FileHeader file)"
    and "i < length (users_of data)"
    and "field (users_of data ! i) ''id'' = Some (GString userid)"
    and "field (users_of data ! i) ''profile'' = Some (GMap profile)"
  shows "\<exists>out user' profile' fs.
           processUsersJson env n pace file script tr =
             (Some (Inr (render env (TArr out))), rest, tr') \<and>
           length out = length (users_of data) \<and>
           out ! i = encode_value user' \<and> decode_value (out ! i) = user' \<and>
           profile' = map_set ''email''
             (GString (case emails userid of Some email \<Rightarrow> email | None \<Rightarrow> [])) profile \<and>
           field user' = (field (users_of data ! i))(''profile'' \<mapsto> GMap profile') \<and>
           map_of profile' = (map_of profile)(''email'' \<mapsto>
             GString (case emails userid of Some email \<Rightarrow> email | None \<Rightarrow> [])) \<and>
           out ! i = TObj fs \<and>
           (''profile'', TObj (encode_map profile')) \<in> set fs \<and>
           (''email'', TStr (case emails userid of Some email \<Rightarrow> email | None \<Rightarrow> []))
             \<in> set (encode_map profile')"
proof -
  let ?us = "users_of data"
  let ?out = "map (\<lambda>user. encode_value (setUserEmail emails user)) ?us"
  let ?u = "setUserEmail emails (?us ! i)"
  from assms(5) have ne: "?us \<noteq> []" by auto
  have run: "processUsersJson env n pace file script tr =
      (Some (Inr (render env (TArr ?out))), rest, tr')"
    using assms(1-4) ne by (rule processUsersJson_written)
  have out: "?out ! i = encode_value ?u" "length ?out = length ?us"
    using assms(5) by simp_all
  from decode_users_canonical [OF assms(2)] ne have "canonical_slice ?us"
    by (cases data) auto
  then have "canonical (?us ! i)"
    using assms(5) by (rule canonical_slice_nth)
  then have "canonical ?u" by (rule canonical_setUserEmail)
  then have again: "decode_value (?out ! i) = ?u"
    unfolding out by (rule encode_decode)
  from setUserEmail_email [OF assms(6,7), of emails]
  obtain profile' fs where
    "profile' = map_set ''email''
       (GString (case emails userid of Some email \<Rightarrow> email | None \<Rightarrow> [])) profile"
    "field ?u = (field (?us ! i))(''profile'' \<mapsto> GMap profile')"
    "map_of profile' = (map_of profile)(''email'' \<mapsto>
       GString (case emails userid of Some email \<Rightarrow> email | None \<Rightarrow> []))"
    "encode_value ?u = TObj fs"
    "(''profile'', TObj (encode_map profile')) \<in> set fs"
    "(''email'', TStr (case emails userid of Some email \<Rightarrow> email | None \<Rightarrow> []))
       \<in> set (encode_map profile')"
    by blast
  with run out again show ?thesis
    by (intro exI [of _ ?out] exI [of _ ?u] exI [of _ profile'] exI [of _ fs]) simp
qed

text \<open>
  A record whose id is in the table, and the same record when the table is empty, as
  \<^verbatim>\<open>fetchEmails\<close> writes them.
\<close>

theorem processUsersJson_email_witness:
  "fetchEmails spelling_env 200 True
     [\<lparr>FileHeader = \<lparr>Name = ''users.json'', Meta = ()\<rparr>,
       Content = ''[{name:bob,id:U1,profile:{title:dev}}]''\<rparr>]
     [Response 200 [] (Decoded \<lparr>Ok = True,
         Members = [\<lparr>user_Id = ''U1'', Profile = \<lparr>Email = ''bob@x.org''\<rparr>\<rparr>], NextCursor = []\<rparr>)] =
   (Some (Inr [\<lparr>FileHeader = \<lparr>Name = ''users.json'', Meta = ()\<rparr>,
                Content = ''[{id:U1,name:bob,profile:{email:bob@x.org,title:dev}}]''\<rparr>]),
    [], [Request 200 []]) \<and>
   fetchEmails spelling_env 200 True
     [\<lparr>FileHeader = \<lparr>Name = ''users.json'', Meta = ()\<rparr>,
       Content = ''[{name:bob,id:U1,profile:{title:dev}}]''\<rparr>]
     [Response 200 [] (Decoded \<lparr>Ok = True, Members = [], NextCursor = []\<rparr>)] =
   (Some (Inr [\<lparr>FileHeader = \<lparr>Name = ''users.json'', Meta = ()\<rparr>,
                Content = ''[{id:U1,name:bob,profile:{email:,title:dev}}]''\<rparr>]),
    [], [Request 200 []])"
  using processUsersJson_email [of spelling_env
      "\<lparr>FileHeader = \<lparr>Name = ''users.json'', Meta = ()\<rparr>,
        Content = ''[{name:bob,id:U1,profile:{title:dev}}]''\<rparr>"
      "TArr [TObj [(''name'', TStr ''bob''), (''id'', TStr ''U1''),
                   (''profile'', TObj [(''title'', TStr ''dev'')])]]"
      "GSlice [GMap [(''id'', GString ''U1''), (''name'', GString ''bob''),
                     (''profile'', GMap [(''title'', GString ''dev'')])]]"
      200 True
      "[Response 200 [] (Decoded \<lparr>Ok = True,
         Members = [\<lparr>user_Id = ''U1'', Profile = \<lparr>Email = ''bob@x.org''\<rparr>\<rparr>], NextCursor = []\<rparr>)]"
      "[]" "[''U1'' \<mapsto> ''bob@x.org'']" "[]" "[Request 200 []]" 0 "''U1''"
      "[(''title'', GString ''dev'')]"]
    processUsersJson_email [of spelling_env
      "\<lparr>FileHeader = \<lparr>Name = ''users.json'', Meta = ()\<rparr>,
        Content = ''[{name:bob,id:U1,profile:{title:dev}}]''\<rparr>"
      "TArr [TObj [(''name'', TStr ''bob''), (''id'', TStr ''U1''),
                   (''profile'', TObj [(''title'', TStr ''dev'')])]]"
      "GSlice [GMap [(''id'', GString ''U1''), (''name'', GString ''bob''),
                     (''profile'', GMap [(''title'', GString ''dev'')])]]"
      200 True
      "[Response 200 [] (Decoded \<lparr>Ok = True, Members = [], NextCursor = []\<rparr>)]"
      "[]" Map.empty "[]" "[Request 200 []]" 0 "''U1''"
      "[(''title'', GString ''dev'')]"]
  by (simp add: fetchEmails_def spelling_env_def processUsersJson_def fetchUserEmails_def
      clampPageLimit_def pageLoop.simps setUserEmail_def lookupEmail_def)

text \<open>
  C8. When one of the records of \<open>users.json\<close> has no string \<open>id\<close>: in
  fetch-emails, \<^verbatim>\<open>processUsersJson\<close> with its table writes the array in which this
  record stands unchanged at its place, between the other records treated as usual, and
  does not fail; in fetch-profile-pictures, \<^verbatim>\<open>downloadPictures\<close> does what it does
  for the other records alone, an error of theirs included, and writes this record
  unchanged at its place among them.
\<close>

theorem record_without_id_kept:
  assumes "parse env (Content file) = Some doc" and "decode_users doc = Inr data"
    and "users_of data = before @ user # after"
    and "\<forall>userid. field user ''id'' \<noteq> Some (GString userid)"
  shows "(fetchUserEmails n pace script tr = (Some (Inr emails), rest, tr') \<and>
          write_ok env (FileHeader file) \<longrightarrow>
            processUsersJson env n pace file script tr =
              (Some (Inr (render env (TArr
                 (map (\<lambda>u. encode_value (setUserEmail emails u)) before @
                  encode_value user #
                  map (\<lambda>u. encode_value (setUserEmail emails u)) after)))),
               rest, tr')) \<and>
         downloadPictures env file w gets =
           (case pictureLoop env (before @ after) w gets of
              Inl e \<Rightarrow> Inl e
            | Inr (users', w', gets') \<Rightarrow>
                if \<not> create_ok env \<lparr>Name = ''users.json'', Meta = created_meta env\<rparr> then
                  Inl CreateUsersJson
                else if \<not> write_ok env \<lparr>Name = ''users.json'', Meta = created_meta env\<rparr> then
                  Inl EncodeWrite
                else
                  Inr (w' @ [\<lparr>FileHeader = \<lparr>Name = ''users.json'', Meta = created_meta env\<rparr>,
                        Content = render env (TArr
                          (map encode_value (take (length before) users') @
                           encode_value user #
                           map encode_value (drop (length before) users')))\<rparr>],
                       gets')) \<and>
         (pictureLoop env (before @ after) w gets = Inr (users', w', gets') \<longrightarrow>
            length users' = length before + length after)"
proof (intro conjI impI)
  assume a: "fetchUserEmails n pace script tr = (Some (Inr emails), rest, tr') \<and>
          write_ok env (FileHeader file)"
  from assms(3) have ne: "users_of data \<noteq> []" by simp
  have same: "setUserEmail emails user = user"
    using assms(4) by (auto simp: setUserEmail_def split: option.splits gval.splits)
  from a have "processUsersJson env n pace file script tr =
      (Some (Inr (render env
         (TArr (map (\<lambda>user. encode_value (setUserEmail emails user)) (users_of data))))),
       rest, tr')"
    by (intro processUsersJson_written [OF assms(1,2) _ _ ne]) simp_all
  then show "processUsersJson env n pace file script tr =
      (Some (Inr (render env (TArr
         (map (\<lambda>u. encode_value (setUserEmail emails u)) before @
          encode_value user #
          map (\<lambda>u. encode_value (setUserEmail emails u)) after)))),
       rest, tr')"
    by (simp add: assms(3) same)
next
  have skip: "downloadPicture env user = (\<lambda>w gets. Inr (user, w, gets))"
    using assms(4) by (auto simp: downloadPicture_def fun_eq_iff split: option.splits gval.splits)
  show "downloadPictures env file w gets =
           (case pictureLoop env (before @ after) w gets of
              Inl e \<Rightarrow> Inl e
            | Inr (users', w', gets') \<Rightarrow>
                if \<not> create_ok env \<lparr>Name = ''users.json'', Meta = created_meta env\<rparr> then
                  Inl CreateUsersJson
                else if \<not> write_ok env \<lparr>Name = ''users.json'', Meta = created_meta env\<rparr> then
                  Inl EncodeWrite
                else
                  Inr (w' @ [\<lparr>FileHeader = \<lparr>Name = ''users.json'', Meta = created_meta env\<rparr>,
                        Content = render env (TArr
                          (map encode_value (take (length before) users') @
                           encode_value user #
                           map encode_value (drop (length before) users')))\<rparr>],
                       gets'))"
    unfolding downloadPictures_def
    by (simp add: assms(1,2,3) pictureLoop_skip [OF skip] encode_with_users [OF assms(3)]
        Let_def split: sum.splits prod.splits)
next
  assume "pictureLoop env (before @ after) w gets = Inr (users', w', gets')"
  from pictureLoop_length [OF this] show "length users' = length before + length after"
    by simp
qed

text \<open>A record with no id followed by one with an id and a picture, in both commands.\<close>

theorem record_without_id_kept_witness:
  "processUsersJson spelling_env 200 True
     \<lparr>FileHeader = \<lparr>Name = ''users.json'', Meta = ()\<rparr>,
       Content = ''[{name:ghost},{id:U2,profile:{image_original:https://avatars.slack-edge.com/b.png}}]''\<rparr>
     [Response 200 [] (Decoded \<lparr>Ok = True,
         Members = [\<lparr>user_Id = ''U2'', Profile = \<lparr>Email = ''b@x.org''\<rparr>\<rparr>], NextCursor = []\<rparr>)] [] =
   (Some (Inr ''[{name:ghost},{id:U2,profile:{email:b@x.org,image_original:https://avatars.slack-edge.com/b.png}}]''),
    [], [Request 200 []]) \<and>
   downloadPictures spelling_env
     \<lparr>FileHeader = \<lparr>Name = ''users.json'', Meta = ()\<rparr>,
       Content = ''[{name:ghost},{id:U2,profile:{image_original:https://avatars.slack-edge.com/b.png}}]''\<rparr>
     [] [] =
   Inr ([\<lparr>FileHeader = \<lparr>Name = ''profile_pictures/U2.png'', Meta = ()\<rparr>, Content = ''JFIF''\<rparr>,
         \<lparr>FileHeader = \<lparr>Name = ''users.json'', Meta = ()\<rparr>,
           Content = ''[{name:ghost},{id:U2,profile:{image_original:https://avatars.slack-edge.com/b.png,image_path:profile_pictures/U2.png}}]''\<rparr>],
        [''https://avatars.slack-edge.com/b.png''])"
  using record_without_id_kept [of spelling_env
      "\<lparr>FileHeader = \<lparr>Name = ''users.json'', Meta = ()\<rparr>,
        Content = ''[{name:ghost},{id:U2,profile:{image_original:https://avatars.slack-edge.com/b.png}}]''\<rparr>"
      "TArr [TObj [(''name'', TStr ''ghost'')],
             TObj [(''id'', TStr ''U2''),
                   (''profile'', TObj [(''image_original'',
                      TStr ''https://avatars.slack-edge.com/b.png'')])]]"
      "GSlice [GMap [(''name'', GString ''ghost'')],
               GMap [(''id'', GString ''U2''),
                     (''profile'', GMap [(''image_original'',
                        GString ''https://avatars.slack-edge.com/b.png'')])]]"
      "[]" "GMap [(''name'', GString ''ghost'')]"
      "[GMap [(''id'', GString ''U2''),
              (''profile'', GMap [(''image_original'',
                 GString ''https://avatars.slack-edge.com/b.png'')])]]"
      200 True
      "[Response 200 [] (Decoded \<lparr>Ok = True,
         Members = [\<lparr>user_Id = ''U2'', Profile = \<lparr>Email = ''b@x.org''\<rparr>\<rparr>], NextCursor = []\<rparr>)]"
      "[]" "[''U2'' \<mapsto> ''b@x.org'']" "[]" "[Request 200 []]" "[]" "[]"
      "[GMap [(''id'', GString ''U2''),
              (''profile'', GMap [(''image_original'',
                 GString ''https://avatars.slack-edge.com/b.png''),
                (''image_path'', GString ''profile_pictures/U2.png'')])]]"
      "[\<lparr>FileHeader = \<lparr>Name = ''profile_pictures/U2.png'', Meta = ()\<rparr>, Content = ''JFIF''\<rparr>]"
      "[''https://avatars.slack-edge.com/b.png'']"]
  by (simp add: spelling_env_def fetchUserEmails_def clampPageLimit_def pageLoop.simps
      setUserEmail_def lookupEmail_def downloadPicture_def HasPrefix_def HasSuffix_def
      extension_def Let_def)

text \<open>
  C10. When \<open>users.json\<close> decodes to no record at all, \<^verbatim>\<open>processUsersJson\<close>
  first runs the whole fetch, with the same requests and waits, and then, if the fetch
  returned a table, fails with the error of an empty file; \<^verbatim>\<open>fetchEmails\<close>
  exits on it.
\<close>

theorem processUsersJson_no_users:
  assumes "parse env (Content file) = Some doc" and "decode_users doc = Inr data"
    and "users_of data = []"
  shows "processUsersJson env n pace file script tr =
           (case fetchUserEmails n pace script tr of
              (None, rest, tr') \<Rightarrow> (None, rest, tr')
            | (Some (Inl e), rest, tr') \<Rightarrow> (Some (Inl (Fetch e)), rest, tr')
            | (Some (Inr emails), rest, tr') \<Rightarrow> (Some (Inl NoUsers), rest, tr')) \<and>
         (open_ok env file \<and> create_ok env (FileHeader file) \<and>
          Name (FileHeader file) = ''users.json'' \<and>
          fetchUserEmails n pace script tr = (Some (Inr emails), rest, tr') \<longrightarrow>
            emailsFiles env n pace (file # files) w script tr =
              (Some (Inl (UsersJsonFailed NoUsers)), rest, tr'))"
  using assms
  by (auto simp: processUsersJson_def split: prod.splits option.splits sum.splits)

text \<open>The empty array as \<open>users.json\<close>, with a server that answers at once.\<close>

theorem processUsersJson_no_users_witness:
  "fetchEmails example_env 200 True
     [\<lparr>FileHeader = \<lparr>Name = ''users.json'', Meta = ()\<rparr>, Content = ''[]''\<rparr>]
     [Response 200 [] (Decoded \<lparr>Ok = True,
         Members = [\<lparr>user_Id = ''U1'', Profile = \<lparr>Email = ''a@x.org''\<rparr>\<rparr>], NextCursor = []\<rparr>)] =
   (Some (Inl (UsersJsonFailed NoUsers)), [], [Request 200 []])"
  using processUsersJson_no_users [of example_env
      "\<lparr>FileHeader = \<lparr>Name = ''users.json'', Meta = ()\<rparr>, Content = ''[]''\<rparr>"
      "TArr []" "GSlice []" 200 True
      "[Response 200 [] (Decoded \<lparr>Ok = True,
         Members = [\<lparr>user_Id = ''U1'', Profile = \<lparr>Email = ''a@x.org''\<rparr>\<rparr>], NextCursor = []\<rparr>)]"
      "[]" "[''U1'' \<mapsto> ''a@x.org'']" "[]" "[Request 200 []]" "[]" "[]"]
  by (simp add: fetchEmails_def example_env_def fetchUserEmails_def clampPageLimit_def
      pageLoop.simps)

subsection \<open>The client\<close>

text \<open>
  The retries of a page. Each attempt that ends in a transport failure, a 429 or a
  status of 500 and above is followed by a wait and another attempt, however many there
  are: a script of such outcomes alone never gives a result, and every one of them has
  had its request. The wait after a transport failure or a server error is
  \<^verbatim>\<open>time.Sleep\<close> of two to the power of the lesser of the attempt's number (from 0,
  counting every earlier attempt for the page) and 3, in seconds, hence at most 8
  seconds. After a 429 whose Retry-After is within the range of \<^verbatim>\<open>time.Duration\<close>,
  \<^verbatim>\<open>time.Sleep\<close> is called with that many seconds, and with 1 second when the header
  is absent or is not an integer.
\<close>

lemma fetchUserEmails_retry:
  "((\<forall>r\<in>set rs. retryable r) \<longrightarrow>
      fst (pageLoop limit pace cursor res rs tr) = None \<and>
      requests (snd (snd (pageLoop limit pace cursor res rs tr))) =
        requests tr @ replicate (length rs) (limit, cursor)) \<and>
   ((\<forall>r\<in>set rs. retryable r \<and> representable r) \<longrightarrow>
      pageLoop limit pace cursor res rs tr = (None, [], tr @ retry_trace limit cursor 0 rs) \<and>
      (status \<noteq> 429 \<and> status < 500 \<longrightarrow>
         pageLoop limit pace cursor res (rs @ Response status ra body # rest) tr =
         pageLoop limit pace cursor res (Response status ra body # rest)
           (tr @ retry_trace limit cursor 0 rs))) \<and>
   retry_delay attempt NetError \<le> 8 * 1000000000 \<and>
   (status \<noteq> 429 \<longrightarrow> retry_delay attempt (Response status ra body) \<le> 8 * 1000000000) \<and>
   (ra = [] \<or> Atoi ra = None \<longrightarrow> retry_delay attempt (Response 429 ra body) = 1000000000)"
proof -
  have "(2::int) ^ min attempt 3 \<le> 2 ^ 3"
    by (intro power_increasing) auto
  then have cap: "retry_delay attempt NetError \<le> 8 * 1000000000"
    "status \<noteq> 429 \<longrightarrow> retry_delay attempt (Response status ra body) \<le> 8 * 1000000000"
    by simp_all
  have dflt: "retry_delay attempt (Response 429 ra body) = 1000000000"
    if "ra = [] \<or> Atoi ra = None"
    using that by (auto simp: retry_after_seconds_def Atoi_empty)
  have through: "pageLoop limit pace cursor res (rs @ Response status ra body # rest) tr =
      pageLoop limit pace cursor res (Response status ra body # rest)
        (tr @ retry_trace limit cursor 0 rs)"
    if "\<forall>r\<in>set rs. retryable r \<and> representable r" "status \<noteq> 429 \<and> status < 500"
    using that by (intro pageLoop_retries) simp_all
  show ?thesis
    using cap dflt through pageLoop_only_retries [of rs limit pace cursor res tr]
      pageLoop_only_retries_requests [of rs limit pace cursor res tr]
    by blast
qed

text \<open>
  The example of the specification: a 429 with \<open>Retry-After: 2\<close>, then a page. The
  client waits 2 seconds before the second attempt and returns the members of the page.
\<close>

lemma fetchUserEmails_retry_witness:
  "fetchUserEmails 200 True
     [Response 429 ''2'' (Decoded \<lparr>Ok = False, Members = [], NextCursor = []\<rparr>),
      Response 200 [] (Decoded \<lparr>Ok = True,
         Members = [\<lparr>user_Id = ''U1'', Profile = \<lparr>Email = ''a@x.org''\<rparr>\<rparr>], NextCursor = []\<rparr>)] [] =
   (Some (Inr [''U1'' \<mapsto> ''a@x.org'']), [],
    [Request 200 [], Sleep (2 * 1000000000), Request 200 []])"
  using fetchUserEmails_retry [of
      "[Response 429 ''2'' (Decoded \<lparr>Ok = False, Members = [], NextCursor = []\<rparr>)]"
      200 True "[]" Map.empty "[]" 200 "[]"
      "Decoded \<lparr>Ok = True,
         Members = [\<lparr>user_Id = ''U1'', Profile = \<lparr>Email = ''a@x.org''\<rparr>\<rparr>], NextCursor = []\<rparr>"
      "[]" 0]
  by (simp add: fetchUserEmails_def clampPageLimit_def pageLoop.simps [of _ _ _ _ "[_]"]
      retry_after_seconds_def Atoi_def is_digit_def)

text \<open>
  C3. The wait after a 429 is not the number of seconds of the Retry-After header when
  that number is beyond the range of \<^verbatim>\<open>time.Duration\<close>: for a Retry-After of
  9223372037, which \<^verbatim>\<open>strconv.Atoi\<close> accepts, \<^verbatim>\<open>waitSec\<close> is 9223372037 but the
  product with \<^verbatim>\<open>time.Second\<close> wraps around, \<^verbatim>\<open>time.Sleep\<close> is called with a
  negative duration and returns at once, and the second attempt follows without a wait.
  A negative Retry-After is not checked either.
\<close>

theorem retry_after_overflow:
  "waitSec ''9223372037'' = 9223372037 \<and> rateLimitWait ''-2'' = - 2000000000 \<and>
   fetchUserEmails 200 True
     [Response 429 ''9223372037'' (Decoded \<lparr>Ok = False, Members = [], NextCursor = []\<rparr>),
      Response 200 [] (Decoded \<lparr>Ok = True,
         Members = [\<lparr>user_Id = ''U1'', Profile = \<lparr>Email = ''a@x.org''\<rparr>\<rparr>], NextCursor = []\<rparr>)] [] =
     (Some (Inr [''U1'' \<mapsto> ''a@x.org'']), [],
      [Request 200 [], Sleep (- 9223372036709551616), Request 200 []])"
  by (simp add: fetchUserEmails_def clampPageLimit_def pageLoop.simps rateLimitWait_def
      waitSec_def wrap64_def Second_def Atoi_def is_digit_def)

text \<open>
  C4. When the server serves pages without error, the client asks for one page after the
  other, each request carrying the cursor of the page before and the first none, and
  stops at the first page whose cursor is empty: it has then made as many requests as
  pages were served, returns the members of all of them and leaves the rest of the script
  alone. As long as every cursor is non-empty it goes on asking.
\<close>

theorem fetchUserEmails_pagination:
  assumes "\<forall>data\<in>set pages. Ok data \<and> NextCursor data \<noteq> []"
  shows "(Ok final \<and> NextCursor final = [] \<longrightarrow>
            fetchUserEmails n pace (map success_response pages @ success_response final # rest) [] =
              (Some (Inr (addMembers (concat (map Members (pages @ [final]))) Map.empty)), rest,
               pages_trace (clampPageLimit n) pace [] pages @
                 [Request (clampPageLimit n) (last_cursor [] pages)]) \<and>
            map snd (requests (pages_trace (clampPageLimit n) pace [] pages @
                 [Request (clampPageLimit n) (last_cursor [] pages)])) = [] # map NextCursor pages) \<and>
         fetchUserEmails n pace (map success_response pages) [] =
           (None, [], pages_trace (clampPageLimit n) pace [] pages) \<and>
         length (requests (pages_trace (clampPageLimit n) pace [] pages)) = length pages"
proof -
  let ?L = "clampPageLimit n"
  have run: "pageLoop ?L pace [] Map.empty (map success_response pages @ script) [] =
      pageLoop ?L pace (last_cursor [] pages) (addMembers (concat (map Members pages)) Map.empty)
        script (pages_trace ?L pace [] pages)" for script
    using pageLoop_pages [OF assms, of ?L pace "[]" Map.empty script "[]"] by simp
  have "fetchUserEmails n pace (map success_response pages @ success_response final # rest) [] =
      (Some (Inr (addMembers (concat (map Members (pages @ [final]))) Map.empty)), rest,
       pages_trace ?L pace [] pages @ [Request ?L (last_cursor [] pages)])"
    if "Ok final" "NextCursor final = []"
    unfolding fetchUserEmails_def run
    by (simp add: pageLoop_last_page [OF that] addMembers_append)
  moreover have "fetchUserEmails n pace (map success_response pages) [] =
      (None, [], pages_trace ?L pace [] pages)"
    using run [of "[]"] by (simp add: fetchUserEmails_def pageLoop_blocked)
  ultimately show ?thesis
    by (simp add: requests_pages_trace length_requests_pages_trace)
qed

text \<open>
  The example of the specification: two pages with the cursors \<open>A\<close> and empty. Two
  requests are made, the second with the cursor \<open>A\<close>, and the outcome scripted after
  them is not consumed.
\<close>

theorem fetchUserEmails_pagination_witness:
  "fetchUserEmails 200 True
     [Response 200 [] (Decoded \<lparr>Ok = True,
         Members = [\<lparr>user_Id = ''U1'', Profile = \<lparr>Email = ''a@x.org''\<rparr>\<rparr>], NextCursor = ''A''\<rparr>),
      Response 200 [] (Decoded \<lparr>Ok = True,
         Members = [\<lparr>user_Id = ''U2'', Profile = \<lparr>Email = ''b@x.org''\<rparr>\<rparr>], NextCursor = []\<rparr>),
      NetError] [] =
   (Some (Inr [''U1'' \<mapsto> ''a@x.org'', ''U2'' \<mapsto> ''b@x.org'']), [NetError],
    [Request 200 [], Sleep 1000000000, Request 200 ''A''])"
  using fetchUserEmails_pagination [of
      "[\<lparr>Ok = True, Members = [\<lparr>user_Id = ''U1'', Profile = \<lparr>Email = ''a@x.org''\<rparr>\<rparr>], NextCursor = ''A''\<rparr>]"
      "\<lparr>Ok = True, Members = [\<lparr>user_Id = ''U2'', Profile = \<lparr>Email = ''b@x.org''\<rparr>\<rparr>], NextCursor = []\<rparr>"
      200 True "[NetError]"]
  by (simp add: success_response_def clampPageLimit_def)

text \<open>
  C5, as amended. \<^verbatim>\<open>fetchUserEmails\<close> returns an error exactly when the response
  that ends the retries of some page has a status other than 200 (and, not being retried,
  other than 429 and below 500), or has status 200 and a body that does not decode or
  decodes without \<open>ok=true\<close>. That response is the last one consumed: its request
  is not repeated. Then no table is returned, \<^verbatim>\<open>processUsersJson\<close> returns the
  error and \<^verbatim>\<open>fetchEmails\<close> exits.
\<close>

theorem fetchUserEmails_fails:
  "((\<forall>r\<in>set pre. retryable r) \<and> fatal status body \<longrightarrow>
      (\<exists>e tr'. pageLoop limit pace cursor res (pre @ Response status ra body # rest) tr =
                 (Some (Inl e), rest, tr') \<and>
               requests tr' = requests tr @ replicate (Suc (length pre)) (limit, cursor))) \<and>
   (fetchUserEmails n pace script tr = (Some (Inl e), rest, tr') \<longrightarrow>
      (\<exists>pre status ra body. script = pre @ Response status ra body # rest \<and> fatal status body) \<and>
      (parse env (Content file) = Some doc \<and> decode_users doc = Inr data \<longrightarrow>
         processUsersJson env n pace file script tr = (Some (Inl (Fetch e)), rest, tr') \<and>
         (open_ok env file \<and> create_ok env (FileHeader file) \<and>
          Name (FileHeader file) = ''users.json'' \<longrightarrow>
            emailsFiles env n pace (file # files) w script tr =
              (Some (Inl (UsersJsonFailed (Fetch e))), rest, tr'))))"
proof (intro conjI impI)
  assume "(\<forall>r\<in>set pre. retryable r) \<and> fatal status body"
  then show "\<exists>e tr'. pageLoop limit pace cursor res (pre @ Response status ra body # rest) tr =
                 (Some (Inl e), rest, tr') \<and>
               requests tr' = requests tr @ replicate (Suc (length pre)) (limit, cursor)"
    by (intro pageLoop_error_if) simp_all
next
  assume f: "fetchUserEmails n pace script tr = (Some (Inl e), rest, tr')"
  then show "\<exists>pre status ra body. script = pre @ Response status ra body # rest \<and> fatal status body"
    unfolding fetchUserEmails_def by (rule pageLoop_error_only_if)
  assume d: "parse env (Content file) = Some doc \<and> decode_users doc = Inr data"
  with f show p: "processUsersJson env n pace file script tr = (Some (Inl (Fetch e)), rest, tr')"
    by (simp add: processUsersJson_def)
  assume "open_ok env file \<and> create_ok env (FileHeader file) \<and>
          Name (FileHeader file) = ''users.json''"
  with p show "emailsFiles env n pace (file # files) w script tr =
              (Some (Inl (UsersJsonFailed (Fetch e))), rest, tr')"
    by simp
qed

text \<open>A transport failure, then a 403: one retry, then the run is given up.\<close>

theorem fetchUserEmails_fails_witness:
  "fetchEmails example_env 200 True
     [\<lparr>FileHeader = \<lparr>Name = ''users.json'', Meta = ()\<rparr>, Content = ''[]''\<rparr>]
     [NetError, Response 403 [] (Decoded \<lparr>Ok = False, Members = [], NextCursor = []\<rparr>), NetError] =
   (Some (Inl (UsersJsonFailed (Fetch (HttpCode 403)))), [NetError],
    [Request 200 [], Sleep 1000000000, Request 200 []])"
  using fetchUserEmails_fails [of "[NetError]" 403
      "Decoded \<lparr>Ok = False, Members = [], NextCursor = []\<rparr>" 200 True "[]" Map.empty "[]" "[NetError]" "[]"
      200 "[NetError, Response 403 [] (Decoded \<lparr>Ok = False, Members = [], NextCursor = []\<rparr>), NetError]" "HttpCode 403"
      "[Request 200 [], Sleep 1000000000, Request 200 []]" example_env
      "\<lparr>FileHeader = \<lparr>Name = ''users.json'', Meta = ()\<rparr>, Content = ''[]''\<rparr>"
      "TArr []" "GSlice []" "[]" "[]"]
  by (simp add: fetchEmails_def example_env_def fetchUserEmails_def clampPageLimit_def
      pageLoop.simps fatal_def terminal_status_def backoff_eq)

text \<open>
  With the first two conditions alone the statement fails: a response with status 200
  whose body the decoder rejects, for instance an object with \<open>ok\<close> true and a
  number where the list of members should be, is neither of the two and yet the fetch
  fails on it.
\<close>

theorem undecodable_body_counterexample:
  "fetchUserEmails 200 True
     [Response 200 [] (Undecoded \<lparr>Ok = True, Members = [], NextCursor = []\<rparr>)] [] =
     (Some (Inl BodyError), [], [Request 200 []]) \<and>
   \<not> (terminal_status 200 \<or>
      lacks_ok (Undecoded \<lparr>Ok = True, Members = [], NextCursor = []\<rparr>))"
  by (simp add: fetchUserEmails_def clampPageLimit_def pageLoop.simps terminal_status_def
      lacks_ok_def)

text \<open>
  C9. The page size sent is at least 1 and at most 999 whatever the flag: 200 for a
  flag of zero or less, 999 for a flag above 999, and the flag itself otherwise, also
  when it is above 200. Every request of a fetch carries this page size.
\<close>

theorem fetchUserEmails_page_size:
  "1 \<le> clampPageLimit n \<and> clampPageLimit n \<le> 999 \<and>
   (n \<le> 0 \<longrightarrow> clampPageLimit n = 200) \<and>
   (999 < n \<longrightarrow> clampPageLimit n = 999) \<and>
   (0 < n \<and> n \<le> 999 \<longrightarrow> clampPageLimit n = n) \<and>
   (\<forall>q\<in>set (requests (snd (snd (fetchUserEmails n pace script [])))).
      fst q = clampPageLimit n)"
proof -
  have "fst ` set (requests (snd (snd (fetchUserEmails n pace script [])))) \<subseteq> {clampPageLimit n}"
    using pageLoop_limit [of "clampPageLimit n" pace "[]" Map.empty script "[]"]
    by (simp add: fetchUserEmails_def)
  then have "\<forall>q\<in>set (requests (snd (snd (fetchUserEmails n pace script [])))).
      fst q = clampPageLimit n"
    by auto
  then show ?thesis
    by (simp add: clampPageLimit_def)
qed

text \<open>A negative flag, a flag above the maximum and a flag between 200 and 999.\<close>

theorem fetchUserEmails_page_size_witness:
  "clampPageLimit (- 3) = 200 \<and> clampPageLimit 5000 = 999 \<and> clampPageLimit 250 = 250 \<and>
   requests (snd (snd (fetchUserEmails 5000 True
     [Response 200 [] (Decoded \<lparr>Ok = True, Members = [], NextCursor = []\<rparr>)] []))) = [(999, [])]"
  using fetchUserEmails_page_size [of "- 3"] fetchUserEmails_page_size [of 250]
    fetchUserEmails_page_size [of 5000 True
      "[Response 200 [] (Decoded \<lparr>Ok = True, Members = [], NextCursor = []\<rparr>)]"]
  by (simp add: fetchUserEmails_def pageLoop.simps)

subsection \<open>The record store\<close>

text \<open>
  C6, as amended. When \<open>users.json\<close> decodes, encoding the decoded records gives
  a document that decodes to the same records: every field, known or not, with the same
  name and value, and the records and the elements of arrays in the same order. The
  members of each object are written in increasing order of their names, so the order of
  the input is kept only where it is that order already.
\<close>

theorem reencode_round_trip:
  assumes "decode_users doc = Inr data"
  shows "reencode doc = Inr (encode_value data) \<and>
         decode_users (encode_value data) = Inr data \<and>
         ordered (encode_value data) \<and>
         (ordered doc \<longrightarrow> encode_value data = doc)"
proof -
  have "encode_value data = doc" if "ordered doc"
  proof (cases doc)
    case (TArr xs)
    with assms that show ?thesis
      by (auto simp: decode_encode split: if_splits)
  qed (use assms in auto)
  with assms show ?thesis
    by (simp add: reencode_def decode_users_encode encode_ordered decode_users_canonical)
qed

text \<open>A record with a field the tool does not know, its names not in order.\<close>

theorem reencode_round_trip_witness:
  "reencode (TArr [TObj [(''name'', TStr ''bob''), (''id'', TStr ''U1''),
      (''x_team'', TObj [(''b'', TBool True), (''a'', TNum (7::nat))])]]) =
     Inr (TArr [TObj [(''id'', TStr ''U1''), (''name'', TStr ''bob''),
      (''x_team'', TObj [(''a'', TNum 7), (''b'', TBool True)])]]) \<and>
   decode_users (TArr [TObj [(''id'', TStr ''U1''), (''name'', TStr ''bob''),
      (''x_team'', TObj [(''a'', TNum (7::nat)), (''b'', TBool True)])]]) =
     decode_users (TArr [TObj [(''name'', TStr ''bob''), (''id'', TStr ''U1''),
      (''x_team'', TObj [(''b'', TBool True), (''a'', TNum 7)])]])"
  using reencode_round_trip [of
      "TArr [TObj [(''name'', TStr ''bob''), (''id'', TStr ''U1''),
         (''x_team'', TObj [(''b'', TBool True), (''a'', TNum (7::nat))])]]"
      "GSlice [GMap [(''id'', GString ''U1''), (''name'', GString ''bob''),
         (''x_team'', GMap [(''a'', GFloat 7), (''b'', GBool True)])]]"]
  by (simp add: reencode_def)

text \<open>
  The order of the fields is not kept: \<open>name\<close> before \<open>id\<close> in the input
  is \<open>id\<close> before \<open>name\<close> in the output.
\<close>

theorem field_order_counterexample:
  "reencode (TArr [TObj [(''name'', TStr ''bob''), (''id'', TStr ''U1'')]] :: nat json) =
     Inr (TArr [TObj [(''id'', TStr ''U1''), (''name'', TStr ''bob'')]]) \<and>
   map fst [(''id'', TStr ''U1''), (''name'', TStr ''bob'') :: string \<times> nat json] \<noteq>
   map fst [(''name'', TStr ''bob''), (''id'', TStr ''U1'') :: string \<times> nat json]"
  by (simp add: reencode_def)

subsection \<open>fetch-profile-pictures\<close>




end
